theory Spec2Isabelle
  imports
    Complex_Main
    "HOL-Library.Multiset"
    "HOL-Library.Char_ord"
    "HOL-Library.List_Lexorder"
    "HOL-Library.Log_Nat"
begin

section \<open>Hour tracker: data written by the log form, data read by the dashboard\<close>

text \<open>
  The program is \<^verbatim>\<open>hour_tracking_27082025.py\<close>: a form that appends one CSV row per
  logged work session (\<^verbatim>\<open>log_hours\<close>) and a dashboard that reads every
  \<^verbatim>\<open>*_hours.csv\<close> file, concatenates the frames and shows a grand total, two
  grouped sums and a weekly bar chart (\<^verbatim>\<open>show_dashboard\<close>, \<^verbatim>\<open>draw_charts\<close>).

  Conventions of the embedding.
  \<^item> A Python \<^verbatim>\<open>str\<close> is a \<^typ>\<open>string\<close>; characters above U+00FF are not represented.
  \<^item> A pandas \<^verbatim>\<open>Timestamp\<close> at midnight is its day count since 1970-01-01 (an
    \<^typ>\<open>int\<close>); the \<^verbatim>\<open>date\<close> column holds such values after
    \<^verbatim>\<open>pd.to_datetime\<close>. Rows whose date cell does not convert are not represented.
  \<^item> The \<^verbatim>\<open>hours\<close> column is summed with exact rational arithmetic; the rounding of
    floating-point addition is not represented.
  \<^item> A cell of the \<^verbatim>\<open>name\<close> or \<^verbatim>\<open>subject\<close> column may be missing (pandas reads
    an empty cell as NaN): \<^term>\<open>None\<close>.
\<close>

subsection \<open>Calendar\<close>

text \<open>Monday is 0, as \<^verbatim>\<open>Timestamp.weekday()\<close> has it; 1970-01-01 was a Thursday.\<close>

definition weekday :: "int \<Rightarrow> int" where
  "weekday t = (t + 3) mod 7"

definition days_from_civil :: "int \<Rightarrow> int \<Rightarrow> int \<Rightarrow> int" where
  "days_from_civil y m d =
     (let y' = (if m \<le> 2 then y - 1 else y);
          era = y' div 400;
          yoe = y' - era * 400;
          doy = (153 * (if 2 < m then m - 3 else m + 9) + 2) div 5 + d - 1;
          doe = yoe * 365 + yoe div 4 - yoe div 100 + doy
      in era * 146097 + doe - 719468)"

definition civil_from_days :: "int \<Rightarrow> int \<times> int \<times> int" where
  "civil_from_days t =
     (let z = t + 719468;
          era = z div 146097;
          doe = z - era * 146097;
          yoe = (doe - doe div 1460 + doe div 36524 - doe div 146096) div 365;
          doy = doe - (365 * yoe + yoe div 4 - yoe div 100);
          mp = (5 * doy + 2) div 153;
          d = doy - (153 * mp + 2) div 5 + 1;
          m = (if mp < 10 then mp + 3 else mp - 9);
          y = yoe + era * 400
      in (if m \<le> 2 then y + 1 else y, m, d))"

definition digit_char :: "int \<Rightarrow> char" where
  "digit_char n = ''0123456789'' ! nat (n mod 10)"

definition zero_pad2 :: "int \<Rightarrow> string" where
  "zero_pad2 n = [digit_char (n div 10), digit_char n]"

definition zero_pad4 :: "int \<Rightarrow> string" where
  "zero_pad4 n = [digit_char (n div 1000), digit_char (n div 100), digit_char (n div 10), digit_char n]"

text \<open>\<^verbatim>\<open>strftime("%Y-%m-%d")\<close> of a calendar date with a year of 1 to 9999.\<close>

definition strftime_Ymd :: "int \<times> int \<times> int \<Rightarrow> string" where
  "strftime_Ymd ymd = (case ymd of (y, m, d) \<Rightarrow> zero_pad4 y @ ''-'' @ zero_pad2 m @ ''-'' @ zero_pad2 d)"

subsection \<open>Records and frames\<close>

text \<open>One row of a frame whose columns are \<^verbatim>\<open>name, date, hours, subject\<close> (CSV_HEADER).\<close>

record hour_record =
  name :: "string option"
  date :: int
  hours :: rat
  subject :: "string option"

type_synonym frame = "hour_record list"

subsection \<open>Aggregation (show_dashboard, lines 240 to 242)\<close>

text \<open>\<^verbatim>\<open>master_df['hours'].sum()\<close>\<close>

definition total_hours :: "frame \<Rightarrow> rat" where
  "total_hours master_df = sum_list (map hours master_df)"

text \<open>
  \<^verbatim>\<open>master_df.groupby(col)['hours'].sum().reset_index()\<close>: one row per distinct key, keys
  in sorted order (\<^verbatim>\<open>sort=True\<close>), rows with a missing key dropped
  (\<^verbatim>\<open>dropna=True\<close>).
\<close>

definition groupby_sum :: "(hour_record \<Rightarrow> string option) \<Rightarrow> frame \<Rightarrow> (string \<times> rat) list" where
  "groupby_sum col master_df =
     map (\<lambda>k. (k, sum_list (map hours (filter (\<lambda>r. col r = Some k) master_df))))
         (sort (remdups (List.map_filter col master_df)))"

definition hours_by_person :: "frame \<Rightarrow> (string \<times> rat) list" where
  "hours_by_person master_df = groupby_sum name master_df"

definition hours_by_subject :: "frame \<Rightarrow> (string \<times> rat) list" where
  "hours_by_subject master_df = groupby_sum subject master_df"

subsection \<open>Weekly resampling (draw_charts, lines 262 and 263)\<close>

text \<open>
  \<^verbatim>\<open>resample('W-MON', label='left')\<close> is pandas' \<^verbatim>\<open>TimeGrouper\<close> with the frequency
  \<^verbatim>\<open>Week(weekday=0)\<close>. For a weekly frequency the bins are closed on the right
  (\<^verbatim>\<open>closed\<close> is not given, and its default for \<^verbatim>\<open>W\<close> is \<^verbatim>\<open>'right'\<close>); the label
  is the left edge because the call says so.

  \<^verbatim>\<open>Week._apply\<close>: adding \<open>n\<close> weeks anchored on Monday to a date.
\<close>

definition Week_apply :: "int \<Rightarrow> int \<Rightarrow> int" where
  "Week_apply n other =
     (if weekday other \<noteq> 0
      then other + ((0 - weekday other) mod 7) + 7 * (if 0 < n then n - 1 else n)
      else other + 7 * n)"

text \<open>\<^verbatim>\<open>date_range(start, end, freq='W-MON')\<close> for a start that is a Monday.\<close>

definition date_range_W_MON :: "int \<Rightarrow> int \<Rightarrow> int list" where
  "date_range_W_MON start end = map (\<lambda>i. start + 7 * int i) [0 ..< nat ((end - start) div 7 + 1)]"

text \<open>
  \<^verbatim>\<open>generate_bins_dt64\<close> with \<^verbatim>\<open>closed='right'\<close> followed by the sum of each bin: a
  linear scan over the rows in date order; each right edge takes the rows not after it.
  An empty bin sums to 0 (\<^verbatim>\<open>min_count=0\<close>).
\<close>

fun bin_sums :: "(int \<times> rat) list \<Rightarrow> int list \<Rightarrow> rat list" where
  "bin_sums rows [] = []"
| "bin_sums rows (r_bin # edges) =
     sum_list (map snd (takeWhile (\<lambda>row. fst row \<le> r_bin) rows))
       # bin_sums (dropWhile (\<lambda>row. fst row \<le> r_bin) rows) edges"

text \<open>
  \<^verbatim>\<open>TimeGrouper._get_time_bins\<close>. The edges run from the Monday before the first date
  (\<^verbatim>\<open>first - freq\<close>) to the Monday after the last (\<^verbatim>\<open>last + freq\<close>). Each edge
  stands for the end of its day (\<^verbatim>\<open>_adjust_bin_edges\<close>), so a date on an edge is not
  after it; the last edge is dropped when the one before it already covers the last date.
\<close>

definition resample_W_MON_left_sum :: "(int \<times> rat) list \<Rightarrow> (int \<times> rat) list" where
  "resample_W_MON_left_sum series =
     (if series = [] then []
      else let ax = sort_key fst series;
               first = Week_apply (- 1) (fst (hd ax));
               last_edge = Week_apply 1 (fst (last ax));
               binner = date_range_W_MON first last_edge;
               binner = (if fst (last ax) \<le> last (butlast binner) then butlast binner else binner);
               totals = bin_sums ax (tl binner);
               labels = take (length totals) binner
           in zip labels totals)"

text \<open>Line 262: the series indexed by week, and line 263: its index as text.\<close>

definition weekly_hours_index :: "frame \<Rightarrow> (int \<times> rat) list" where
  "weekly_hours_index master_df = resample_W_MON_left_sum (map (\<lambda>r. (date r, hours r)) master_df)"

definition weekly_hours :: "frame \<Rightarrow> (string \<times> rat) list" where
  "weekly_hours master_df =
     map (\<lambda>(t, s). (strftime_Ymd (civil_from_days t), s)) (weekly_hours_index master_df)"

text \<open>
  What the resampling comes to, stated without the scan: \<open>bin_label t\<close> is the label of
  the bin that a date \<open>t\<close> falls into (the result of \<^verbatim>\<open>t - Week(weekday=0)\<close>), and
  \<open>week_bins first m rows\<close> are \<open>m\<close> consecutive weekly bins from the label
  \<open>first\<close> on, each with the sum of the rows after its label and not after the next.
  These two are used to state and prove properties of \<^const>\<open>resample_W_MON_left_sum\<close>.
\<close>

definition bin_label :: "int \<Rightarrow> int" where
  "bin_label t = Week_apply (- 1) t"

definition week_bins :: "int \<Rightarrow> nat \<Rightarrow> (int \<times> rat) list \<Rightarrow> (int \<times> rat) list" where
  "week_bins first m rows =
     map (\<lambda>i. (first + 7 * int i,
               sum_list (map snd (filter (\<lambda>r. first + 7 * int i < fst r \<and> fst r \<le> first + 7 * int i + 7) rows))))
         [0 ..< m]"

subsection \<open>The dashboard (show_dashboard, draw_charts)\<close>

text \<open>
  \<^verbatim>\<open>messagebox.showinfo/showwarning/showerror(title, text)\<close>. The success notice of
  \<^verbatim>\<open>log_hours\<close> carries the logged number and the name instead of their rendering.
\<close>

datatype pyfloat = Finite rat | PosInf | NegInf | NaN

datatype message =
    Showinfo string string
  | Showwarning string string
  | Showerror string string
  | Showinfo_logged pyfloat string

text \<open>
  The widgets that \<^verbatim>\<open>show_dashboard\<close> fills, holding the numbers before their
  two-decimal rendering. The label starts as "N/A" (\<^term>\<open>None\<close>), the trees and the
  chart frame start empty.
\<close>

record dashboard =
  total_hours_label :: "rat option"
  person_tree :: "(string \<times> rat) list"
  subject_tree :: "(string \<times> rat) list"
  charts_frame :: "((string \<times> rat) list \<times> (string \<times> rat) list) option"

definition initial_dashboard :: dashboard where
  "initial_dashboard =
     \<lparr>total_hours_label = None, person_tree = [], subject_tree = [], charts_frame = None\<rparr>"

text \<open>
  The storage as the dashboard sees it: \<^verbatim>\<open>os.listdir(path)\<close> (\<^term>\<open>None\<close> for
  FileNotFoundError) and \<^verbatim>\<open>pd.read_csv(path)\<close> (\<^term>\<open>Inl\<close> with the text of the
  exception, or the frame of a file that parses with the four columns).
\<close>

record storage =
  listdir :: "string \<Rightarrow> string list option"
  read_csv :: "string \<Rightarrow> string + frame"

definition os_path_join :: "string \<Rightarrow> string \<Rightarrow> string" where
  "os_path_join a b =
     (if b \<noteq> [] \<and> hd b = CHR ''/'' then b
      else if a = [] \<or> last a = CHR ''/'' then a @ b
      else a @ ''/'' @ b)"

definition DATA_FOLDER :: "string \<Rightarrow> string" where
  "DATA_FOLDER SCRIPT_DIR = os_path_join SCRIPT_DIR ''hour_tracking_files''"

definition endswith :: "string \<Rightarrow> string \<Rightarrow> bool" where
  "endswith s suffix = (length suffix \<le> length s \<and> drop (length s - length suffix) s = suffix)"

text \<open>Lines 225 to 231: the loop over the files, with its warnings and \<^verbatim>\<open>all_data\<close>.\<close>

fun read_all :: "(string \<Rightarrow> string + frame) \<Rightarrow> string \<Rightarrow> string list \<Rightarrow> message list \<times> frame list" where
  "read_all rd folder [] = ([], [])"
| "read_all rd folder (filename # file_list) =
     (let full_path = os_path_join folder filename;
          rest = read_all rd folder file_list
      in case rd full_path of
           Inr df \<Rightarrow> (fst rest, if df \<noteq> [] then df # snd rest else snd rest)
         | Inl e \<Rightarrow>
             (Showwarning ''File Read Error''
                (''Could not read '' @ full_path @ ''.'' @ [CHR 0x0A] @ ''Error: '' @ e) # fst rest,
              snd rest))"

text \<open>\<^verbatim>\<open>pd.concat(objs, ignore_index=True)\<close>; it raises ValueError on an empty list.\<close>

definition pd_concat :: "frame list \<Rightarrow> string + frame" where
  "pd_concat objs = (if objs = [] then Inl ''No objects to concatenate'' else Inr (concat objs))"

text \<open>\<^verbatim>\<open>draw_charts\<close>: the series of the bar chart and the data of the pie chart.\<close>

definition draw_charts :: "frame \<Rightarrow> (string \<times> rat) list \<Rightarrow> (string \<times> rat) list \<times> (string \<times> rat) list" where
  "draw_charts master_df by_person = (weekly_hours master_df, by_person)"

text \<open>Lines 240 to 252: what the widgets hold once \<^verbatim>\<open>master_df\<close> is there.\<close>

definition fill_dashboard :: "frame \<Rightarrow> dashboard" where
  "fill_dashboard master_df =
     \<lparr>total_hours_label = Some (total_hours master_df),
      person_tree = hours_by_person master_df,
      subject_tree = hours_by_subject master_df,
      charts_frame = Some (draw_charts master_df (hours_by_person master_df))\<rparr>"

text \<open>
  \<^verbatim>\<open>show_dashboard\<close>: the notices shown and the widgets afterwards, or \<^term>\<open>Inl\<close> for an
  exception that leaves the function.
\<close>

definition show_dashboard :: "string \<Rightarrow> storage \<Rightarrow> dashboard \<Rightarrow> string + (message list \<times> dashboard)" where
  "show_dashboard SCRIPT_DIR st d =
     (case listdir st (DATA_FOLDER SCRIPT_DIR) of
        None \<Rightarrow>
          Inr ([Showinfo ''No Data''
                  (''The data folder '' @ [CHR 0x27] @ DATA_FOLDER SCRIPT_DIR @ [CHR 0x27] @ '' was not found.'')], d)
      | Some names \<Rightarrow>
          (let file_list = filter (\<lambda>f. endswith f ''_hours.csv'') names
           in if file_list = []
              then Inr ([Showinfo ''No Data'' ''No project data files (.csv) found.''], d)
              else (let loop = read_all (read_csv st) (DATA_FOLDER SCRIPT_DIR) file_list;
                        all_data = snd loop
                    in if all_data = []
                       then Inr (fst loop @ [Showinfo ''No Data'' ''No valid data found in CSV files.''], d)
                       else (case pd_concat all_data of
                               Inl e \<Rightarrow> Inl e
                             | Inr master_df \<Rightarrow> Inr (fst loop, fill_dashboard master_df)))))"

text \<open>
  The records of the units of a listing that can be read, in listing order: what the
  properties of \<^const>\<open>show_dashboard\<close> are stated against.
\<close>

definition records_of :: "storage \<Rightarrow> string \<Rightarrow> string list \<Rightarrow> frame" where
  "records_of st folder file_list =
     concat (map (\<lambda>f. case read_csv st (os_path_join folder f) of Inr df \<Rightarrow> df | Inl e \<Rightarrow> []) file_list)"

text \<open>The record sets of a listing: the frame of each unit that can be read, one per unit.\<close>

definition record_sets :: "(string \<Rightarrow> string + frame) \<Rightarrow> string \<Rightarrow> string list \<Rightarrow> frame list" where
  "record_sets rd folder file_list =
     List.map_filter (\<lambda>f. case rd (os_path_join folder f) of Inr df \<Rightarrow> Some df | Inl e \<Rightarrow> None) file_list"

subsection \<open>Text and numbers as Python reads them\<close>

text \<open>\<^verbatim>\<open>str.isspace\<close> for the characters up to U+00FF, and \<^verbatim>\<open>str.strip()\<close>.\<close>

definition is_space :: "char \<Rightarrow> bool" where
  "is_space c \<longleftrightarrow>
     c \<in> set [CHR 0x09, CHR 0x0A, CHR 0x0B, CHR 0x0C, CHR 0x0D, CHR 0x1C, CHR 0x1D, CHR 0x1E,
              CHR 0x1F, CHR 0x20, CHR 0x85, CHR 0xA0]"

definition strip :: "string \<Rightarrow> string" where
  "strip s = rev (dropWhile is_space (rev (dropWhile is_space s)))"

definition is_digit :: "char \<Rightarrow> bool" where
  "is_digit c \<longleftrightarrow> c \<in> set ''0123456789''"

definition digit_value :: "char \<Rightarrow> int" where
  "digit_value c = int (of_char c) - 48"

definition int_of_digits :: "string \<Rightarrow> int" where
  "int_of_digits ds = foldl (\<lambda>n c. 10 * n + digit_value c) 0 ds"

definition ascii_lower :: "char \<Rightarrow> char" where
  "ascii_lower c =
     (case map_of (zip ''ABCDEFGHIJKLMNOPQRSTUVWXYZ'' ''abcdefghijklmnopqrstuvwxyz'') c of
        Some l \<Rightarrow> l | None \<Rightarrow> c)"

text \<open>
  \<^verbatim>\<open>datetime.strptime(data_string, "%d-%m-%Y")\<close>. The format becomes the regular
  expression \<^verbatim>\<open>(3[0-1]|[1-2]\d|0[1-9]|[1-9]| [1-9])-(1[0-2]|0[1-9]|[1-9])-(\d\d\d\d)\<close>,
  which must match the whole text; the three numbers must then form a date of the
  calendar (years from 1). The result is (year, month, day).
\<close>

definition day_field :: "string \<Rightarrow> int option" where
  "day_field f =
     (case f of
        [c] \<Rightarrow> if c \<in> set ''123456789'' then Some (digit_value c) else None
      | [a, b] \<Rightarrow>
          if (a = CHR ''3'' \<and> b \<in> set ''01'') \<or> (a \<in> set ''12'' \<and> is_digit b)
             \<or> (a = CHR ''0'' \<and> b \<in> set ''123456789'')
          then Some (10 * digit_value a + digit_value b)
          else if a = CHR '' '' \<and> b \<in> set ''123456789'' then Some (digit_value b)
          else None
      | _ \<Rightarrow> None)"

definition month_field :: "string \<Rightarrow> int option" where
  "month_field f =
     (case f of
        [c] \<Rightarrow> if c \<in> set ''123456789'' then Some (digit_value c) else None
      | [a, b] \<Rightarrow>
          if (a = CHR ''1'' \<and> b \<in> set ''012'') \<or> (a = CHR ''0'' \<and> b \<in> set ''123456789'')
          then Some (10 * digit_value a + digit_value b)
          else None
      | _ \<Rightarrow> None)"

definition year_field :: "string \<Rightarrow> int option" where
  "year_field f = (if length f = 4 \<and> list_all is_digit f then Some (int_of_digits f) else None)"

definition is_leap :: "int \<Rightarrow> bool" where
  "is_leap y \<longleftrightarrow> y mod 4 = 0 \<and> (y mod 100 \<noteq> 0 \<or> y mod 400 = 0)"

definition days_in_month :: "int \<Rightarrow> int \<Rightarrow> int" where
  "days_in_month y m =
     (if m = 2 then (if is_leap y then 29 else 28)
      else if m = 4 \<or> m = 6 \<or> m = 9 \<or> m = 11 then 30 else 31)"

definition strptime_dmY :: "string \<Rightarrow> (int \<times> int \<times> int) option" where
  "strptime_dmY data_string =
     (let d_part = takeWhile (\<lambda>c. c \<noteq> CHR ''-'') data_string;
          after_d = dropWhile (\<lambda>c. c \<noteq> CHR ''-'') data_string;
          m_part = takeWhile (\<lambda>c. c \<noteq> CHR ''-'') (tl after_d);
          after_m = dropWhile (\<lambda>c. c \<noteq> CHR ''-'') (tl after_d)
      in if after_d = [] \<or> after_m = [] then None
         else (case (day_field d_part, month_field m_part, year_field (tl after_m)) of
                 (Some d, Some m, Some y) \<Rightarrow>
                   if 1 \<le> y \<and> d \<le> days_in_month y m then Some (y, m, d) else None
               | _ \<Rightarrow> None))"

text \<open>
  \<^verbatim>\<open>float(text)\<close>. The text is stripped; after an optional sign it is \<^verbatim>\<open>inf\<close>,
  \<^verbatim>\<open>infinity\<close> or \<^verbatim>\<open>nan\<close> in any case, or a decimal number: digits with an
  optional point and an optional exponent, where an underscore may stand between two
  digits. The value is rounded to the nearest binary64 number, ties to even; a value too
  large becomes infinity, one too small becomes zero.
\<close>

definition pow2 :: "int \<Rightarrow> rat" where
  "pow2 k = (if 0 \<le> k then 2 ^ nat k else 1 / 2 ^ nat (- k))"

definition pow10 :: "int \<Rightarrow> rat" where
  "pow10 k = (if 0 \<le> k then 10 ^ nat k else 1 / 10 ^ nat (- k))"

definition floor_log2 :: "rat \<Rightarrow> int" where
  "floor_log2 x =
     (let e = bitlen (fst (quotient_of x)) - bitlen (snd (quotient_of x))
      in if pow2 e \<le> x then e else e - 1)"

definition round_half_even :: "rat \<Rightarrow> int" where
  "round_half_even x =
     (let f = \<lfloor>x\<rfloor>; r = x - of_int f
      in if r < 1 / 2 then f else if 1 / 2 < r then f + 1 else if even f then f else f + 1)"

definition round_binary64 :: "rat \<Rightarrow> pyfloat" where
  "round_binary64 x =
     (if x = 0 then Finite 0
      else let a = \<bar>x\<bar>;
               quantum = pow2 (max (floor_log2 a) (- 1022) - 52);
               y = of_int (round_half_even (a / quantum)) * quantum
           in if pow2 1024 \<le> y then (if x < 0 then NegInf else PosInf)
              else Finite (if x < 0 then - y else y))"

definition digit_run :: "string \<Rightarrow> string" where
  "digit_run s = takeWhile (\<lambda>c. is_digit c \<or> c = CHR ''_'') s"

fun no_double_underscore :: "string \<Rightarrow> bool" where
  "no_double_underscore (a # b # cs) \<longleftrightarrow>
     \<not> (a = CHR ''_'' \<and> b = CHR ''_'') \<and> no_double_underscore (b # cs)"
| "no_double_underscore cs \<longleftrightarrow> True"

definition digitpart_ok :: "string \<Rightarrow> bool" where
  "digitpart_ok ds \<longleftrightarrow> ds \<noteq> [] \<and> is_digit (hd ds) \<and> is_digit (last ds) \<and> no_double_underscore ds"

definition digits_of :: "string \<Rightarrow> string" where
  "digits_of ds = filter is_digit ds"

definition py_float :: "string \<Rightarrow> pyfloat option" where
  "py_float text =
     (let s = strip text;
          negative = (s \<noteq> [] \<and> hd s = CHR ''-'');
          body = (if s \<noteq> [] \<and> (hd s = CHR ''-'' \<or> hd s = CHR ''+'') then tl s else s);
          low = map ascii_lower body
      in if low = ''inf'' \<or> low = ''infinity'' then Some (if negative then NegInf else PosInf)
         else if low = ''nan'' then Some NaN
         else
           (let ip = digit_run body;
                after_ip = drop (length ip) body;
                has_point = (after_ip \<noteq> [] \<and> hd after_ip = CHR ''.'');
                fp = (if has_point then digit_run (tl after_ip) else []);
                after_fp = (if has_point then drop (length fp) (tl after_ip) else after_ip);
                has_exp = (after_fp \<noteq> [] \<and> (hd after_fp = CHR ''e'' \<or> hd after_fp = CHR ''E''));
                exp_text = (if has_exp then tl after_fp else []);
                exp_negative = (exp_text \<noteq> [] \<and> hd exp_text = CHR ''-'');
                exp_body = (if exp_text \<noteq> [] \<and> (hd exp_text = CHR ''-'' \<or> hd exp_text = CHR ''+'')
                            then tl exp_text else exp_text);
                ep = digit_run exp_body;
                number_ok = (if has_point
                             then (ip = [] \<or> digitpart_ok ip) \<and> (fp = [] \<or> digitpart_ok fp)
                                  \<and> \<not> (ip = [] \<and> fp = [])
                             else digitpart_ok ip);
                exponent_ok = (if has_exp then digitpart_ok ep \<and> ep = exp_body else after_fp = []);
                exponent = (if has_exp
                            then (if exp_negative then - int_of_digits (digits_of ep)
                                  else int_of_digits (digits_of ep))
                            else 0);
                magnitude = of_int (int_of_digits (digits_of ip @ digits_of fp))
                            * pow10 (exponent - int (length (digits_of fp)))
            in if number_ok \<and> exponent_ok
               then Some (round_binary64 (if negative then - magnitude else magnitude))
               else None))"

text \<open>The comparisons \<^verbatim>\<open>hours <= 0\<close> and \<^verbatim>\<open>hours > 0\<close> on a Python float.\<close>

fun float_le_zero :: "pyfloat \<Rightarrow> bool" where
  "float_le_zero (Finite q) \<longleftrightarrow> q \<le> 0"
| "float_le_zero NegInf \<longleftrightarrow> True"
| "float_le_zero PosInf \<longleftrightarrow> False"
| "float_le_zero NaN \<longleftrightarrow> False"

fun float_gt_zero :: "pyfloat \<Rightarrow> bool" where
  "float_gt_zero (Finite q) \<longleftrightarrow> 0 < q"
| "float_gt_zero PosInf \<longleftrightarrow> True"
| "float_gt_zero NegInf \<longleftrightarrow> False"
| "float_gt_zero NaN \<longleftrightarrow> False"

subsection \<open>The log form (get_employee_filename, log_hours)\<close>

text \<open>
  \<^verbatim>\<open>get_employee_filename\<close>. \<open>NFD\<close> stands for \<^verbatim>\<open>unicodedata.normalize('NFD', _)\<close>,
  a table of the Unicode database; \<^verbatim>\<open>encode('ascii', 'ignore')\<close> keeps the characters
  below U+0080.
\<close>

definition get_employee_filename :: "(string \<Rightarrow> string) \<Rightarrow> string \<Rightarrow> string \<Rightarrow> string" where
  "get_employee_filename NFD SCRIPT_DIR name' =
     (let normalized_name = NFD name';
          ascii_name = filter (\<lambda>c. (of_char c :: nat) < 128) normalized_name;
          safe_filename_base =
            map ascii_lower (map (\<lambda>c. if c = CHR '' '' then CHR ''_'' else c) (strip ascii_name));
          filename = safe_filename_base @ ''_hours.csv''
      in os_path_join (DATA_FOLDER SCRIPT_DIR) filename)"

text \<open>
  A CSV file is the list of the rows given to \<^verbatim>\<open>writer.writerow\<close>; a cell is a text or
  a float.
\<close>

datatype cell = Str string | Num pyfloat

definition CSV_HEADER :: "cell list" where
  "CSV_HEADER = [Str ''name'', Str ''date'', Str ''hours'', Str ''subject'']"

text \<open>
  The form and what it writes to: the four input widgets, the list of known names, the
  files by path, and for each path the IOError that \<^verbatim>\<open>open(path, 'a')\<close> raises there,
  if any.
\<close>

record app_state =
  name_combobox :: string
  name_combobox_values :: "string list"
  date_entry :: string
  hours_entry :: string
  subject_combobox :: string
  existing_names :: "string list"
  files :: "string \<rightharpoonup> cell list list"
  open_error :: "string \<Rightarrow> string option"

definition log_hours :: "(string \<Rightarrow> string) \<Rightarrow> string \<Rightarrow> app_state \<Rightarrow> message \<times> app_state" where
  "log_hours NFD SCRIPT_DIR s =
     (let name = strip (name_combobox s);
          date_str = strip (date_entry s);
          hours_str = strip (hours_entry s);
          subject = subject_combobox s
      in if \<not> list_all (\<lambda>x. x \<noteq> []) [name, date_str, hours_str, subject]
         then (Showerror ''Input Error'' ''All fields are required.'', s)
         else
           (case strptime_dmY date_str of
              None \<Rightarrow> (Showerror ''Input Error'' ''Invalid date format. Please use dd-mm-yyyy.'', s)
            | Some date_obj \<Rightarrow>
                (case py_float hours_str of
                   None \<Rightarrow> (Showerror ''Input Error'' ''Hours must be a valid number.'', s)
                 | Some value \<Rightarrow>
                     let hours = value in
                     if float_le_zero hours
                     then (Showerror ''Input Error'' ''Hours must be a positive number.'', s)
                     else
                       (let filename = get_employee_filename NFD SCRIPT_DIR name;
                            file_exists = (files s filename \<noteq> None);
                            date_to_save = strftime_Ymd date_obj
                        in case open_error s filename of
                             Some e \<Rightarrow>
                               (Showerror ''File Error''
                                  (''Could not write to file '' @ filename @ ''.'' @ [CHR 0x0A] @ e), s)
                           | None \<Rightarrow>
                               (let old_rows = (case files s filename of None \<Rightarrow> [] | Some rows \<Rightarrow> rows);
                                    header = (if \<not> file_exists then [CSV_HEADER] else []);
                                    new_row = [Str name, Str date_to_save, Num hours, Str subject];
                                    names = (if name \<notin> set (existing_names s)
                                             then sort (existing_names s @ [name])
                                             else existing_names s)
                                in (Showinfo_logged hours name,
                                    s\<lparr>files := (files s)(filename \<mapsto> old_rows @ header @ [new_row]),
                                      hours_entry := [],
                                      existing_names := names,
                                      name_combobox_values :=
                                        (if name \<notin> set (existing_names s) then names
                                         else name_combobox_values s)\<rparr>))))))"

subsection \<open>Files written by the log form\<close>

text \<open>
  Reading a text of the form YYYY-MM-DD (four digits, two digits, two digits, with
  hyphens) as (year, month, day); and the rows that \<^const>\<open>log_hours\<close> appends: a name, a
  date in that form, a number and a subject.
\<close>

definition read_Ymd :: "string \<Rightarrow> (int \<times> int \<times> int) option" where
  "read_Ymd t =
     (if length t = 10 \<and> list_all is_digit (take 4 t) \<and> t ! 4 = CHR ''-''
         \<and> list_all is_digit (take 2 (drop 5 t)) \<and> t ! 7 = CHR ''-''
         \<and> list_all is_digit (drop 8 t)
      then Some (int_of_digits (take 4 t), int_of_digits (take 2 (drop 5 t)), int_of_digits (drop 8 t))
      else None)"

fun is_data_row :: "cell list \<Rightarrow> bool" where
  "is_data_row [Str n, Str d, Num h, Str sj] \<longleftrightarrow> read_Ymd d \<noteq> None"
| "is_data_row row \<longleftrightarrow> False"

text \<open>A file that starts with the header and goes on with at least one data row, and only such.\<close>

definition header_then_data :: "cell list list \<Rightarrow> bool" where
  "header_then_data rows \<longleftrightarrow>
     (case rows of [] \<Rightarrow> False | r # rs \<Rightarrow> r = CSV_HEADER \<and> rs \<noteq> [] \<and> list_all is_data_row rs)"

text \<open>
  A session at the form: for each entry the user fills the four widgets and presses the
  button.
\<close>

definition enter :: "string \<times> string \<times> string \<times> string \<Rightarrow> app_state \<Rightarrow> app_state" where
  "enter e s =
     (case e of (n, d, h, sj) \<Rightarrow>
        s\<lparr>name_combobox := n, date_entry := d, hours_entry := h, subject_combobox := sj\<rparr>)"

fun log_session :: "(string \<Rightarrow> string) \<Rightarrow> string \<Rightarrow> (string \<times> string \<times> string \<times> string) list \<Rightarrow> app_state \<Rightarrow> app_state" where
  "log_session NFD SCRIPT_DIR [] s = s"
| "log_session NFD SCRIPT_DIR (e # es) s =
     log_session NFD SCRIPT_DIR es (snd (log_hours NFD SCRIPT_DIR (enter e s)))"

subsection \<open>Example data\<close>

text \<open>
  Three records in the week of Monday 2025-01-06: two dated on the Monday itself, one on
  the Wednesday.
\<close>

definition scenario :: frame where
  "scenario =
     [\<lparr>name = Some ''Alice'', date = days_from_civil 2025 1 6, hours = 3, subject = Some ''Meetings''\<rparr>,
      \<lparr>name = Some ''Alice'', date = days_from_civil 2025 1 8, hours = 2, subject = Some ''Meetings''\<rparr>,
      \<lparr>name = Some ''Bob'', date = days_from_civil 2025 1 6, hours = 5, subject = Some ''Technical Work''\<rparr>]"

text \<open>Two records, on the Tuesdays 2025-01-07 and 2025-01-28, and nothing in between.\<close>

definition gap_weeks :: frame where
  "gap_weeks =
     [\<lparr>name = Some ''Alice'', date = days_from_civil 2025 1 7, hours = 1, subject = Some ''Meetings''\<rparr>,
      \<lparr>name = Some ''Alice'', date = days_from_civil 2025 1 28, hours = 2, subject = Some ''Meetings''\<rparr>]"

text \<open>
  A data folder with two units that parse and one that does not; an empty data folder.
\<close>

definition one_corrupt_unit :: storage where
  "one_corrupt_unit =
     \<lparr>listdir = (\<lambda>p. if p = ''/app/hour_tracking_files''
                       then Some [''alice_hours.csv'', ''broken_hours.csv'', ''bob_hours.csv''] else None),
      read_csv = (\<lambda>p. if p = ''/app/hour_tracking_files/alice_hours.csv'' then Inr (take 2 scenario)
                        else if p = ''/app/hour_tracking_files/bob_hours.csv'' then Inr (drop 2 scenario)
                        else Inl ''Error tokenizing data'')\<rparr>"

definition empty_folder :: storage where
  "empty_folder =
     \<lparr>listdir = (\<lambda>p. if p = ''/app/hour_tracking_files'' then Some [] else None),
      read_csv = (\<lambda>p. Inl ''No such file or directory'')\<rparr>"

text \<open>Two units holding the same single row.\<close>

definition twin_units :: storage where
  "twin_units =
     \<lparr>listdir = (\<lambda>p. if p = ''/app/hour_tracking_files''
                       then Some [''ann_hours.csv'', ''ann_copy_hours.csv''] else None),
      read_csv = (\<lambda>p. Inr (take 1 scenario))\<rparr>"

text \<open>The folder of \<^const>\<open>one_corrupt_unit\<close>, listed in another order.\<close>

definition one_corrupt_unit_relisted :: storage where
  "one_corrupt_unit_relisted =
     one_corrupt_unit
       \<lparr>listdir := (\<lambda>p. if p = ''/app/hour_tracking_files''
                          then Some [''bob_hours.csv'', ''broken_hours.csv'', ''alice_hours.csv''] else None)\<rparr>"

text \<open>
  The form filled with a valid entry, no file written yet; the same form on a data
  folder that cannot be written to; and the form with hours that are not positive.
\<close>

definition filled_form :: app_state where
  "filled_form =
     \<lparr>name_combobox = '' Alice '', name_combobox_values = [], date_entry = ''06-01-2025'',
      hours_entry = ''3.5'', subject_combobox = ''Meetings'', existing_names = [],
      files = Map.empty, open_error = (\<lambda>p. None)\<rparr>"

definition read_only_form :: app_state where
  "read_only_form = filled_form\<lparr>open_error := (\<lambda>p. Some ''[Errno 13] Permission denied'')\<rparr>"

definition zero_hours_form :: app_state where
  "zero_hours_form = filled_form\<lparr>hours_entry := ''0''\<rparr>"

definition nan_hours_form :: app_state where
  "nan_hours_form = filled_form\<lparr>hours_entry := ''nan''\<rparr>"

section \<open>Properties\<close>

subsection \<open>Weeks\<close>

lemma weekday_range: "0 \<le> weekday t \<and> weekday t < 7"
  unfolding weekday_def by simp

lemma weekday_succ: "weekday t = (if weekday (t - 1) = 6 then 0 else weekday (t - 1) + 1)"
proof -
  have "((t - 1 + 3) mod 7 + 1) mod 7 = (t - 1 + 3 + 1) mod 7"
    by (rule mod_add_left_eq)
  moreover have "t - 1 + 3 + 1 = t + 3" by simp
  ultimately have "(t + 3) mod 7 = ((t - 1 + 3) mod 7 + 1) mod 7"
    by (simp only:)
  moreover have "0 \<le> (t - 1 + 3) mod 7" "(t - 1 + 3) mod 7 < 7" by simp_all
  ultimately show ?thesis unfolding weekday_def by auto
qed

lemma neg_weekday_mod: "0 < k \<Longrightarrow> k < 7 \<Longrightarrow> (0 - k) mod 7 = 7 - (k::int)"
proof -
  assume a: "0 < k" "k < 7"
  have "(0 - k) mod 7 = (0 - k + 7) mod 7"
    by (rule mod_add_self2 [symmetric])
  also have "0 - k + 7 = 7 - k" by simp
  also have "(7 - k) mod 7 = 7 - k" using a by (intro mod_pos_pos_trivial) auto
  finally show ?thesis .
qed

lemma bin_label_eq: "bin_label t = t - 1 - weekday (t - 1)"
proof (cases "weekday t = 0")
  case True
  then have "weekday (t - 1) = 6"
    using weekday_succ [of t] weekday_range [of "t - 1"] by (auto split: if_splits)
  with True show ?thesis unfolding bin_label_def Week_apply_def by simp
next
  case False
  then have w: "weekday t = weekday (t - 1) + 1" "0 < weekday t" "weekday t < 7"
    using weekday_succ [of t] weekday_range [of t] by (auto split: if_splits)
  from neg_weekday_mod [OF w(2,3)] False w(1) show ?thesis
    unfolding bin_label_def Week_apply_def by simp
qed

lemma Week_apply_next: "Week_apply 1 t = bin_label t + (if weekday t = 0 then 14 else 7)"
proof (cases "weekday t = 0")
  case True
  then show ?thesis unfolding bin_label_def Week_apply_def by simp
next
  case False
  then have w: "0 < weekday t" "weekday t < 7"
    using weekday_range [of t] by auto
  from neg_weekday_mod [OF w] False show ?thesis
    unfolding bin_label_def Week_apply_def by simp
qed

lemma weekday_bin_label: "weekday (bin_label t) = 0"
proof -
  have "(t - 1 - (t - 1 + 3) mod 7 + 3) mod 7 = ((t - 1 + 3) - (t - 1 + 3) mod 7) mod 7"
    by (simp add: algebra_simps)
  also have "\<dots> = 0" by (simp add: minus_mod_eq_mult_div)
  finally show ?thesis unfolding bin_label_eq weekday_def .
qed

lemma bin_label_bounds: "bin_label t < t \<and> t \<le> bin_label t + 7"
  using weekday_range [of "t - 1"] unfolding bin_label_eq by auto

lemma weekday_0_dvd: "weekday w = 0 \<longleftrightarrow> 7 dvd (w + 3)"
  unfolding weekday_def by (simp add: dvd_eq_mod_eq_0)

lemma mondays_apart: "weekday v = 0 \<Longrightarrow> weekday w = 0 \<Longrightarrow> v < w \<Longrightarrow> v + 7 \<le> w"
proof -
  assume a: "weekday v = 0" "weekday w = 0" "v < w"
  then have "7 dvd (w + 3) - (v + 3)" unfolding weekday_0_dvd by (rule_tac dvd_diff) auto
  then obtain k where k: "w - v = 7 * k" by (auto simp: dvd_def)
  with a(3) have "0 < k" by auto
  with k show ?thesis by auto
qed

lemma bin_label_iff: "weekday w = 0 \<Longrightarrow> bin_label t = w \<longleftrightarrow> w < t \<and> t \<le> w + 7"
proof
  assume "weekday w = 0" "bin_label t = w"
  then show "w < t \<and> t \<le> w + 7" using bin_label_bounds [of t] by auto
next
  assume w: "weekday w = 0" and b: "w < t \<and> t \<le> w + 7"
  show "bin_label t = w"
  proof (rule ccontr)
    assume "bin_label t \<noteq> w"
    then consider "bin_label t < w" | "w < bin_label t" by linarith
    then show False
    proof cases
      case 1
      from mondays_apart [OF weekday_bin_label w 1] b bin_label_bounds [of t] show False by auto
    next
      case 2
      from mondays_apart [OF w weekday_bin_label 2] b bin_label_bounds [of t] show False by auto
    qed
  qed
qed

lemma bin_label_mono: "s \<le> t \<Longrightarrow> bin_label s \<le> bin_label t"
proof (rule ccontr)
  assume st: "s \<le> t" and "\<not> bin_label s \<le> bin_label t"
  then have "bin_label t < bin_label s" by simp
  from mondays_apart [OF weekday_bin_label weekday_bin_label this]
  show False using bin_label_bounds [of s] bin_label_bounds [of t] st by auto
qed

subsection \<open>The scan over the bins\<close>

lemma takeWhile_sorted_fst:
  "sorted (map fst rows) \<Longrightarrow> takeWhile (\<lambda>row. fst row \<le> (e::int)) rows = filter (\<lambda>row. fst row \<le> e) rows"
proof (induction rows)
  case Nil
  then show ?case by simp
next
  case (Cons a rows)
  show ?case
  proof (cases "fst a \<le> e")
    case True
    with Cons show ?thesis by simp
  next
    case False
    with Cons.prems have "\<forall>x\<in>set rows. \<not> fst x \<le> e" by auto
    then have "filter (\<lambda>row. fst row \<le> e) rows = []" by (simp add: filter_empty_conv)
    with False show ?thesis by simp
  qed
qed

lemma dropWhile_sorted_fst:
  "sorted (map fst rows) \<Longrightarrow> dropWhile (\<lambda>row. fst row \<le> (e::int)) rows = filter (\<lambda>row. \<not> fst row \<le> e) rows"
proof (induction rows)
  case Nil
  then show ?case by simp
next
  case (Cons a rows)
  show ?case
  proof (cases "fst a \<le> e")
    case True
    with Cons show ?thesis by simp
  next
    case False
    with Cons.prems have "\<forall>x\<in>set rows. \<not> fst x \<le> e" by auto
    then have "filter (\<lambda>row. \<not> fst row \<le> e) rows = rows" by (simp add: filter_id_conv)
    with False show ?thesis by simp
  qed
qed

lemma length_bin_sums: "length (bin_sums rows es) = length es"
  by (induction es arbitrary: rows) auto

lemma sum_list_takeWhile_dropWhile:
  "sum_list (map f (takeWhile P xs)) + sum_list (map f (dropWhile P xs)) = (sum_list (map f xs) :: rat)"
proof -
  have "sum_list (map f (takeWhile P xs @ dropWhile P xs)) = sum_list (map f xs)" by simp
  then show ?thesis unfolding map_append sum_list_append .
qed

lemma sum_list_bin_sums:
  "es \<noteq> [] \<Longrightarrow> \<forall>r\<in>set rows. fst r \<le> last es \<Longrightarrow> sum_list (bin_sums rows es) = sum_list (map snd rows)"
proof (induction es arbitrary: rows)
  case Nil
  then show ?case by simp
next
  case (Cons e es)
  show ?case
  proof (cases "es = []")
    case True
    have tw: "takeWhile (\<lambda>row. fst row \<le> e) rows = rows"
      using Cons.prems True by simp
    show ?thesis unfolding True bin_sums.simps tw by simp
  next
    case False
    have "\<forall>r\<in>set (dropWhile (\<lambda>row. fst row \<le> e) rows). fst r \<le> last es"
      using Cons.prems False by (auto dest: set_dropWhileD)
    from Cons.IH [OF False this] show ?thesis
      by (simp add: sum_list_takeWhile_dropWhile)
  qed
qed

lemma bin_sums_weeks:
  "sorted (map fst rows) \<Longrightarrow> \<forall>r\<in>set rows. first < fst r \<Longrightarrow>
   bin_sums rows (map (\<lambda>i. first + 7 + 7 * int i) [0 ..< m]) =
   map (\<lambda>i. sum_list (map snd (filter (\<lambda>r. first + 7 * int i < fst r \<and> fst r \<le> first + 7 * int i + 7) rows))) [0 ..< m]"
proof (induction m arbitrary: first rows)
  case 0
  then show ?case by simp
next
  case (Suc m)
  let ?rest = "dropWhile (\<lambda>row. fst row \<le> first + 7) rows"
  have up: "[0 ..< Suc m] = 0 # map Suc [0 ..< m]"
    by (simp add: upt_conv_Cons map_Suc_upt del: upt_Suc)
  have rest: "?rest = filter (\<lambda>row. \<not> fst row \<le> first + 7) rows"
    using Suc.prems(1) by (rule dropWhile_sorted_fst)
  have s: "sorted (map fst ?rest)"
    unfolding rest using Suc.prems(1) by (simp add: sorted_filter)
  have b: "\<forall>r\<in>set ?rest. first + 7 < fst r"
    unfolding rest by auto
  have hd: "takeWhile (\<lambda>row. fst row \<le> first + 7) rows
           = filter (\<lambda>r. first + 7 * int 0 < fst r \<and> fst r \<le> first + 7 * int 0 + 7) rows"
    using Suc.prems by (auto simp: takeWhile_sorted_fst intro: filter_cong)
  have tl: "filter (\<lambda>r. first + 7 + 7 * int i < fst r \<and> fst r \<le> first + 7 + 7 * int i + 7) ?rest
          = filter (\<lambda>r. first + 7 * int (Suc i) < fst r \<and> fst r \<le> first + 7 * int (Suc i) + 7) rows" for i
    unfolding rest filter_filter by (rule filter_cong) auto
  show ?case
    unfolding up list.map bin_sums.simps map_map comp_def
    using Suc.IH [OF s b] hd tl by (simp add: algebra_simps)
qed

subsection \<open>The weekly series as consecutive bins\<close>

lemma sorted_hd_Min: "sorted xs \<Longrightarrow> xs \<noteq> [] \<Longrightarrow> hd xs = Min (set (xs :: int list))"
  by (cases xs) (auto intro!: Min_eqI [symmetric])

lemma sorted_le_last: "sorted xs \<Longrightarrow> y \<in> set xs \<Longrightarrow> y \<le> last (xs :: int list)"
  by (induction xs) auto

lemma sorted_last_Max: "sorted xs \<Longrightarrow> xs \<noteq> [] \<Longrightarrow> last xs = Max (set (xs :: int list))"
  by (rule Max_eqI [symmetric]) (auto intro: sorted_le_last)

lemma sum_list_filter_mset:
  "mset xs = mset ys \<Longrightarrow> sum_list (map f (filter P xs)) = (sum_list (map f (filter P ys)) :: rat)"
proof -
  assume a: "mset xs = mset ys"
  have "sum_list (map f (filter P zs)) = sum_mset (image_mset f (filter_mset P (mset zs)))" for zs
    by (simp add: sum_mset_sum_list [symmetric])
  with a show ?thesis by simp
qed

lemma mondays_multiple:
  assumes "weekday v = 0" "weekday w = 0" "v \<le> w"
  shows "\<exists>k::nat. w = v + 7 * int k"
proof -
  have "7 dvd (w + 3) - (v + 3)"
    using assms(1,2) unfolding weekday_0_dvd by (intro dvd_diff) auto
  then obtain j where j: "w - v = 7 * j" by (auto simp: dvd_def)
  with assms(3) have "0 \<le> j" by auto
  then have "w = v + 7 * int (nat j)" using j by auto
  then show ?thesis ..
qed

lemma weekday_plus7: "weekday (t + 7) = weekday t"
proof -
  have "t + 7 + 3 = (t + 3) + 7" by simp
  then show ?thesis unfolding weekday_def by (simp only: mod_add_self2)
qed

lemma zip_map_same: "zip (map f xs) (map g xs) = map (\<lambda>x. (f x, g x)) xs"
  by (induction xs) auto

lemma weeks_butlast: "butlast (map f [0 ..< Suc n]) = map f [0 ..< n]"
  by (simp add: map_butlast [symmetric])

lemma weeks_tl: "tl (map (\<lambda>i. first + 7 * int i) [0 ..< Suc n]) = map (\<lambda>i. first + 7 + 7 * int i) [0 ..< n]"
proof -
  have "[0 ..< Suc n] = 0 # map Suc [0 ..< n]"
    by (simp add: upt_conv_Cons map_Suc_upt del: upt_Suc)
  then show ?thesis by (simp add: comp_def algebra_simps del: upt_Suc)
qed

lemma resample_week_bins:
  assumes ne: "series \<noteq> []"
  shows "resample_W_MON_left_sum series =
         week_bins (bin_label (Min (fst ` set series)))
                   (nat ((bin_label (Max (fst ` set series)) - bin_label (Min (fst ` set series))) div 7 + 1))
                   series"
proof -
  define ax where "ax = sort_key fst series"
  define lo where "lo = Min (fst ` set series)"
  define hi where "hi = Max (fst ` set series)"
  define L where "L = bin_label lo"
  define H where "H = bin_label hi"
  have ax_sorted: "sorted (map fst ax)" unfolding ax_def by (rule sorted_sort_key)
  have ax_set: "set ax = set series" unfolding ax_def by simp
  have ax_mset: "mset ax = mset series" unfolding ax_def by simp
  have ax_ne: "ax \<noteq> []" using ne ax_set by auto
  have hd_ax: "fst (hd ax) = lo"
    using sorted_hd_Min [OF ax_sorted] ax_ne by (simp add: hd_map lo_def ax_set)
  have last_ax: "fst (last ax) = hi"
    using sorted_last_Max [OF ax_sorted] ax_ne by (simp add: last_map hi_def ax_set)
  have lo_le: "lo \<le> fst r" if "r \<in> set series" for r
    unfolding lo_def using that by (intro Min_le) auto
  have le_hi: "fst r \<le> hi" if "r \<in> set series" for r
    unfolding hi_def using that by (intro Max_ge) auto
  have "lo \<le> hi"
  proof -
    from ne obtain r where r: "r \<in> set series" by (cases series) auto
    from lo_le [OF r] le_hi [OF r] show ?thesis by (rule order_trans)
  qed
  then have "L \<le> H" unfolding L_def H_def by (rule bin_label_mono)
  then obtain k :: nat where k: "H = L + 7 * int k"
    using mondays_multiple [of L H] weekday_bin_label unfolding L_def H_def by auto
  have m: "nat ((H - L) div 7 + 1) = Suc k" using k by simp
  let ?f = "\<lambda>i. L + 7 * int i"
  define binner0 where "binner0 = date_range_W_MON L (Week_apply 1 hi)"
  define binner where "binner = (if hi \<le> last (butlast binner0) then butlast binner0 else binner0)"
  have binner: "binner = map ?f [0 ..< Suc (Suc k)]"
  proof (cases "weekday hi = 0")
    case True
    then have "Week_apply 1 hi = H + 14" by (simp add: Week_apply_next H_def)
    then have "nat ((Week_apply 1 hi - L) div 7 + 1) = Suc (Suc (Suc k))"
      unfolding k by simp
    then have b0: "binner0 = map ?f [0 ..< Suc (Suc (Suc k))]"
      unfolding binner0_def date_range_W_MON_def by (simp only:)
    have "hi = H + 7"
      using True unfolding H_def bin_label_def Week_apply_def by simp
    then have "hi \<le> last (butlast binner0)"
      unfolding b0 weeks_butlast k by simp
    then show ?thesis unfolding binner_def b0 weeks_butlast by simp
  next
    case False
    then have "Week_apply 1 hi = H + 7" by (simp add: Week_apply_next H_def)
    then have "nat ((Week_apply 1 hi - L) div 7 + 1) = Suc (Suc k)"
      unfolding k by simp
    then have b0: "binner0 = map ?f [0 ..< Suc (Suc k)]"
      unfolding binner0_def date_range_W_MON_def by (simp only:)
    have "hi \<noteq> H + 7"
    proof
      assume "hi = H + 7"
      then have "weekday hi = weekday (H + 7)" by simp
      also have "\<dots> = weekday H" by (rule weekday_plus7)
      also have "\<dots> = 0" unfolding H_def by (rule weekday_bin_label)
      finally show False using False by simp
    qed
    moreover have "H < hi \<and> hi \<le> H + 7" unfolding H_def by (rule bin_label_bounds)
    ultimately have "\<not> hi \<le> last (butlast binner0)"
      unfolding b0 weeks_butlast k by simp
    then show ?thesis unfolding binner_def b0 by simp
  qed
  have after: "\<forall>r\<in>set ax. L < fst r"
  proof
    fix r assume "r \<in> set ax"
    then have "lo \<le> fst r" using lo_le ax_set by auto
    moreover have "L < lo" unfolding L_def using bin_label_bounds [of lo] by simp
    ultimately show "L < fst r" by simp
  qed
  have totals: "bin_sums ax (tl binner) =
      map (\<lambda>i. sum_list (map snd (filter (\<lambda>r. L + 7 * int i < fst r \<and> fst r \<le> L + 7 * int i + 7) series)))
          [0 ..< Suc k]"
    unfolding binner weeks_tl bin_sums_weeks [OF ax_sorted after]
    by (rule map_cong [OF refl]) (rule sum_list_filter_mset [OF ax_mset])
  have labels: "take (length (bin_sums ax (tl binner))) binner = map ?f [0 ..< Suc k]"
    unfolding length_bin_sums unfolding binner by (simp add: take_map del: upt_Suc)
  have "resample_W_MON_left_sum series =
        zip (take (length (bin_sums ax (tl binner))) binner) (bin_sums ax (tl binner))"
    using ne
    by (simp add: resample_W_MON_left_sum_def Let_def binner_def binner0_def L_def bin_label_def
          ax_def hd_ax [unfolded ax_def] last_ax [unfolded ax_def])
  also have "\<dots> = week_bins L (Suc k) series"
    unfolding labels unfolding totals week_bins_def by (rule zip_map_same)
  finally show ?thesis
    unfolding L_def lo_def hi_def using m by (simp add: H_def L_def lo_def hi_def)
qed

lemma week_span:
  assumes "series \<noteq> []"
  shows "\<exists>k::nat. bin_label (Max (fst ` set series)) = bin_label (Min (fst ` set series)) + 7 * int k"
proof -
  from assms obtain r where r: "r \<in> set series" by (cases series) auto
  have "Min (fst ` set series) \<le> fst r" using r by (intro Min_le) auto
  also have "fst r \<le> Max (fst ` set series)" using r by (intro Max_ge) auto
  finally have "bin_label (Min (fst ` set series)) \<le> bin_label (Max (fst ` set series))"
    by (rule bin_label_mono)
  then show ?thesis
    by (intro mondays_multiple weekday_bin_label)
qed

lemma sum_list_filter_disjoint:
  "(\<And>x. \<not> (P x \<and> Q x)) \<Longrightarrow>
   sum_list (map f (filter P xs)) + sum_list (map f (filter Q xs))
   = (sum_list (map f (filter (\<lambda>x. P x \<or> Q x) xs)) :: rat)"
  by (induction xs) auto

lemma sum_week_bins:
  "sum_list (map snd (week_bins first m rows))
   = sum_list (map snd (filter (\<lambda>r. first < fst r \<and> fst r \<le> first + 7 * int m) rows))"
proof (induction m)
  case 0
  have "filter (\<lambda>r. first < fst r \<and> fst r \<le> first + 7 * int 0) rows = []"
    by (simp add: filter_empty_conv)
  then show ?case by (simp add: week_bins_def)
next
  case (Suc m)
  have split: "(\<lambda>r. first < fst r \<and> fst r \<le> first + 7 * int (Suc m))
      = (\<lambda>r. (first < fst r \<and> fst r \<le> first + 7 * int m)
             \<or> (first + 7 * int m < fst r \<and> fst r \<le> first + 7 * int m + 7))"
    by (rule ext) auto
  have "sum_list (map snd (week_bins first (Suc m) rows))
      = sum_list (map snd (week_bins first m rows))
        + sum_list (map snd (filter (\<lambda>r. first + 7 * int m < fst r \<and> fst r \<le> first + 7 * int m + 7) rows))"
    by (simp add: week_bins_def comp_def)
  also have "\<dots> = sum_list (map snd (filter (\<lambda>r. first < fst r \<and> fst r \<le> first + 7 * int (Suc m)) rows))"
    unfolding Suc.IH split by (rule sum_list_filter_disjoint) auto
  finally show ?case .
qed

lemma sum_resample:
  "sum_list (map snd (resample_W_MON_left_sum series)) = sum_list (map snd series)"
proof (cases "series = []")
  case True
  then show ?thesis by (simp add: resample_W_MON_left_sum_def)
next
  case False
  define lo where "lo = Min (fst ` set series)"
  define hi where "hi = Max (fst ` set series)"
  from week_span [OF False] obtain k :: nat where k: "bin_label hi = bin_label lo + 7 * int k"
    unfolding lo_def hi_def by auto
  then have m: "nat ((bin_label hi - bin_label lo) div 7 + 1) = Suc k" by simp
  have all: "bin_label lo < fst r \<and> fst r \<le> bin_label lo + 7 * int (Suc k)" if "r \<in> set series" for r
  proof -
    have "lo \<le> fst r" unfolding lo_def using that by (intro Min_le) auto
    moreover have "fst r \<le> hi" unfolding hi_def using that by (intro Max_ge) auto
    moreover note bin_label_bounds [of lo] bin_label_bounds [of hi] k
    ultimately show ?thesis by auto
  qed
  have "filter (\<lambda>r. bin_label lo < fst r \<and> fst r \<le> bin_label lo + 7 * int (Suc k)) series = series"
    using all by (simp add: filter_id_conv)
  then show ?thesis
    unfolding resample_week_bins [OF False] lo_def [symmetric] hi_def [symmetric] m sum_week_bins
    by simp
qed

section \<open>The claims\<close>

text \<open>
  C1. The claim: every record's hours go to the week labelled by the Monday on or before
  its date, and the three records of \<^const>\<open>scenario\<close> give the weekly series
  [(2025-01-06, 10)]. The code labels a record dated on a Monday with the Monday a week
  earlier (the bins are closed on the right): the two Monday records of the scenario, 8
  hours, appear under 2024-12-30 and only the Wednesday record under 2025-01-06.
\<close>

theorem monday_records_go_to_previous_week:
  "weekly_hours scenario = [(''2024-12-30'', 8), (''2025-01-06'', 2)]"
  unfolding scenario_def by code_simp

text \<open>
  C4. For every merged dataset, the sums of the entries of the weekly series add up to
  the total of the hours.
\<close>

theorem weekly_series_sums_to_total:
  "sum_list (map snd (weekly_hours master_df)) = total_hours master_df"
proof -
  have "map snd (weekly_hours master_df) = map snd (weekly_hours_index master_df)"
    unfolding weekly_hours_def by (simp add: comp_def case_prod_unfold)
  then show ?thesis
    unfolding weekly_hours_index_def total_hours_def
    by (simp add: sum_resample comp_def)
qed

theorem weekly_series_sums_to_total_witness:
  "sum_list (map snd (weekly_hours scenario)) = 10 \<and> total_hours scenario = 10"
  using weekly_series_sums_to_total [of scenario]
  by (simp add: total_hours_def scenario_def)

lemma sum_list_zero: "(\<And>x. x \<in> set xs \<Longrightarrow> f x = 0) \<Longrightarrow> sum_list (map f xs) = (0 :: rat)"
  by (induction xs) auto

lemma set_map_filter_col: "set (List.map_filter col df) = {k. \<exists>r\<in>set df. col r = Some k}"
  unfolding List.map_filter_def by force

lemma sum_list_single_key:
  "distinct ks \<Longrightarrow> a \<in> set ks \<Longrightarrow> sum_list (map (\<lambda>k. if a = k then c else 0) ks) = (c :: rat)"
proof (induction ks)
  case Nil
  then show ?case by simp
next
  case (Cons k ks)
  show ?case
  proof (cases "a = k")
    case True
    with Cons.prems have "\<forall>x\<in>set ks. a \<noteq> x" by auto
    then have "sum_list (map (\<lambda>k. if a = k then c else 0) ks) = 0" by (intro sum_list_zero) auto
    with True show ?thesis by simp
  next
    case False
    with Cons show ?thesis by simp
  qed
qed

lemma sum_groups:
  assumes "distinct ks" "\<forall>r\<in>set df. \<exists>k\<in>set ks. col r = Some k"
  shows "sum_list (map (\<lambda>k. sum_list (map hours (filter (\<lambda>r. col r = Some k) df))) ks)
         = sum_list (map hours df)"
  using assms(2)
proof (induction df)
  case Nil
  then show ?case by simp
next
  case (Cons r df)
  from Cons.prems obtain a where a: "a \<in> set ks" "col r = Some a" by auto
  have "sum_list (map (\<lambda>k. sum_list (map hours (filter (\<lambda>r. col r = Some k) (r # df)))) ks)
      = sum_list (map (\<lambda>k. (if a = k then hours r else 0)
                           + sum_list (map hours (filter (\<lambda>r. col r = Some k) df))) ks)"
    by (intro arg_cong [where f = sum_list] map_cong refl) (simp add: a(2))
  also have "\<dots> = sum_list (map (\<lambda>k. if a = k then hours r else 0) ks)
                  + sum_list (map (\<lambda>k. sum_list (map hours (filter (\<lambda>r. col r = Some k) df))) ks)"
    by (rule sum_list_addf)
  also have "\<dots> = hours r + sum_list (map hours df)"
    using sum_list_single_key [OF assms(1) a(1)] Cons.IH Cons.prems by simp
  finally show ?case by simp
qed

lemma groupby_sum_total:
  assumes "\<forall>r\<in>set df. col r \<noteq> None"
  shows "sum_list (map snd (groupby_sum col df)) = total_hours df"
proof -
  let ?ks = "sort (remdups (List.map_filter col df))"
  have d: "distinct ?ks" by simp
  have "set ?ks = {k. \<exists>r\<in>set df. col r = Some k}"
    by (simp add: set_map_filter_col)
  with assms have "\<forall>r\<in>set df. \<exists>k\<in>set ?ks. col r = Some k" by fastforce
  from sum_groups [OF d this] show ?thesis
    unfolding groupby_sum_def total_hours_def by (simp add: comp_def)
qed

text \<open>
  C3. For every merged dataset in which every record has a person and a subject, the
  values of the sums by person and the values of the sums by subject both add up to the
  total of the hours (the sums are exact).
\<close>

theorem grouped_sums_equal_total:
  assumes "\<forall>r\<in>set master_df. name r \<noteq> None \<and> subject r \<noteq> None"
  shows "sum_list (map snd (hours_by_person master_df)) = sum_list (map snd (hours_by_subject master_df))
         \<and> sum_list (map snd (hours_by_subject master_df)) = total_hours master_df"
  using assms groupby_sum_total [of master_df name] groupby_sum_total [of master_df subject]
  unfolding hours_by_person_def hours_by_subject_def by simp

theorem grouped_sums_equal_total_witness:
  "map name scenario = [Some ''Alice'', Some ''Alice'', Some ''Bob'']
   \<and> map subject scenario = [Some ''Meetings'', Some ''Meetings'', Some ''Technical Work'']
   \<and> sum_list (map snd (hours_by_person scenario)) = 10
   \<and> sum_list (map snd (hours_by_subject scenario)) = 10
   \<and> total_hours scenario = 10"
  using grouped_sums_equal_total [of scenario]
  by (simp add: total_hours_def scenario_def)

lemma weekday_plus_weeks: "weekday (t + 7 * int i) = weekday t"
proof -
  have "t + 7 * int i + 3 = (t + 3) + 7 * int i" by simp
  then show ?thesis unfolding weekday_def by (simp only: mod_mult_self2)
qed

lemma week_bins_labels: "map fst (week_bins first m rows) = map (\<lambda>i. first + 7 * int i) [0 ..< m]"
  by (simp add: week_bins_def comp_def)

lemma week_labels_ascending: "sorted_wrt (<) (map (\<lambda>i. first + 7 * int i) [0 ..< m])"
  by (simp add: sorted_wrt_map)

lemma week_labels_set:
  assumes "weekday first = 0"
  shows "set (map (\<lambda>i. first + 7 * int i) [0 ..< Suc k])
         = {w. weekday w = 0 \<and> first \<le> w \<and> w \<le> first + 7 * int k}"
proof (intro set_eqI iffI)
  fix w assume "w \<in> set (map (\<lambda>i. first + 7 * int i) [0 ..< Suc k])"
  then obtain i where "i \<le> k" "w = first + 7 * int i" by auto
  then show "w \<in> {w. weekday w = 0 \<and> first \<le> w \<and> w \<le> first + 7 * int k}"
    using assms by (simp add: weekday_plus_weeks)
next
  fix w assume "w \<in> {w. weekday w = 0 \<and> first \<le> w \<and> w \<le> first + 7 * int k}"
  then have w: "weekday w = 0" "first \<le> w" "w \<le> first + 7 * int k" by auto
  from mondays_multiple [OF assms w(1,2)] obtain j :: nat where j: "w = first + 7 * int j" ..
  with w(3) have "j < Suc k" by simp
  with j show "w \<in> set (map (\<lambda>i. first + 7 * int i) [0 ..< Suc k])"
    by (auto simp del: upt_Suc)
qed

lemma week_bins_entry:
  assumes "(w, s) \<in> set (week_bins first m rows)" "weekday first = 0"
  shows "s = sum_list (map snd (filter (\<lambda>r. bin_label (fst r) = w) rows))"
proof -
  from assms(1) obtain i where i: "w = first + 7 * int i"
    "s = sum_list (map snd (filter (\<lambda>r. w < fst r \<and> fst r \<le> w + 7) rows))"
    unfolding week_bins_def by auto
  have "weekday w = 0" unfolding i(1) using assms(2) by (simp add: weekday_plus_weeks)
  then have "(\<lambda>r. w < fst r \<and> fst r \<le> w + 7) = (\<lambda>r::int \<times> rat. bin_label (fst r) = w)"
    by (intro ext) (simp add: bin_label_iff)
  with i(2) show ?thesis by simp
qed

lemma Min_dates: "df \<noteq> [] \<Longrightarrow> \<exists>r\<in>set df. Min (f ` set df) = (f r :: int)"
proof -
  assume "df \<noteq> []"
  then have "Min (f ` set df) \<in> f ` set df" by (intro Min_in) auto
  then show ?thesis by (auto simp: image_iff)
qed

lemma Max_dates: "df \<noteq> [] \<Longrightarrow> \<exists>r\<in>set df. Max (f ` set df) = (f r :: int)"
proof -
  assume "df \<noteq> []"
  then have "Max (f ` set df) \<in> f ` set df" by (intro Max_in) auto
  then show ?thesis by (auto simp: image_iff)
qed

text \<open>
  C2. The claim: every entry of the weekly series is a week with at least one record,
  weeks without records give no entry, and the entries ascend by week start. The series
  of \<^const>\<open>gap_weeks\<close> has entries for 2025-01-13 and 2025-01-20, with sum 0, although no
  record is dated between 2025-01-08 and 2025-01-27: resampling yields every week
  between the first and the last one that hold records.
\<close>

theorem empty_weeks_are_zero_filled:
  "weekly_hours gap_weeks
     = [(''2025-01-06'', 1), (''2025-01-13'', 0), (''2025-01-20'', 0), (''2025-01-27'', 2)]
   \<and> map date gap_weeks = [days_from_civil 2025 1 7, days_from_civil 2025 1 28]"
  unfolding gap_weeks_def by code_simp

text \<open>
  C2, as the code has it. For every non-empty merged dataset the entries of the weekly
  series ascend strictly by week start; there is exactly one entry for each Monday from
  the earliest label that a record is attributed to up to the latest; and the sum of an
  entry is the sum of the hours of the records attributed to its label, hence 0 for a
  week in between without records.
\<close>

theorem weekly_series_consecutive_weeks:
  assumes "master_df \<noteq> []"
  shows "sorted_wrt (<) (map fst (weekly_hours_index master_df))
       \<and> fst ` set (weekly_hours_index master_df)
           = {w. weekday w = 0 \<and> (\<exists>r\<in>set master_df. bin_label (date r) \<le> w)
                               \<and> (\<exists>r\<in>set master_df. w \<le> bin_label (date r))}
       \<and> (\<forall>(w, s)\<in>set (weekly_hours_index master_df).
             s = sum_list (map hours (filter (\<lambda>r. bin_label (date r) = w) master_df)))"
proof -
  define series where "series = map (\<lambda>r. (date r, hours r)) master_df"
  define lo where "lo = Min (fst ` set series)"
  define hi where "hi = Max (fst ` set series)"
  have ne: "series \<noteq> []" using assms by (simp add: series_def)
  have dates: "fst ` set series = date ` set master_df" by (force simp: series_def)
  from week_span [OF ne] obtain k :: nat where k: "bin_label hi = bin_label lo + 7 * int k"
    unfolding lo_def hi_def by auto
  then have m: "nat ((bin_label hi - bin_label lo) div 7 + 1) = Suc k" by simp
  have W: "weekly_hours_index master_df = week_bins (bin_label lo) (Suc k) series"
    unfolding weekly_hours_index_def series_def [symmetric] resample_week_bins [OF ne]
      lo_def [symmetric] hi_def [symmetric] m ..
  have asc: "sorted_wrt (<) (map fst (weekly_hours_index master_df))"
    unfolding W week_bins_labels by (rule week_labels_ascending)
  have lo_le: "bin_label lo \<le> bin_label (date r)" if "r \<in> set master_df" for r
    unfolding lo_def dates using that by (intro bin_label_mono Min_le) auto
  have le_hi: "bin_label (date r) \<le> bin_label hi" if "r \<in> set master_df" for r
    unfolding hi_def dates using that by (intro bin_label_mono Max_ge) auto
  from Min_dates [OF assms, of date] obtain r0 where r0: "r0 \<in> set master_df" "lo = date r0"
    unfolding lo_def dates by auto
  from Max_dates [OF assms, of date] obtain r1 where r1: "r1 \<in> set master_df" "hi = date r1"
    unfolding hi_def dates by auto
  have lower: "(\<exists>r\<in>set master_df. bin_label (date r) \<le> w) \<longleftrightarrow> bin_label lo \<le> w" for w
  proof
    assume "\<exists>r\<in>set master_df. bin_label (date r) \<le> w"
    then obtain r where "r \<in> set master_df" "bin_label (date r) \<le> w" ..
    with lo_le [of r] show "bin_label lo \<le> w" by simp
  next
    assume "bin_label lo \<le> w"
    with r0 show "\<exists>r\<in>set master_df. bin_label (date r) \<le> w" by blast
  qed
  have upper: "(\<exists>r\<in>set master_df. w \<le> bin_label (date r)) \<longleftrightarrow> w \<le> bin_label hi" for w
  proof
    assume "\<exists>r\<in>set master_df. w \<le> bin_label (date r)"
    then obtain r where "r \<in> set master_df" "w \<le> bin_label (date r)" ..
    with le_hi [of r] show "w \<le> bin_label hi" by simp
  next
    assume "w \<le> bin_label hi"
    with r1 show "\<exists>r\<in>set master_df. w \<le> bin_label (date r)" by blast
  qed
  have "fst ` set (weekly_hours_index master_df) = set (map fst (weekly_hours_index master_df))"
    by simp
  also have "\<dots> = {w. weekday w = 0 \<and> bin_label lo \<le> w \<and> w \<le> bin_label hi}"
    unfolding W week_bins_labels k by (rule week_labels_set) (rule weekday_bin_label)
  finally have labels: "fst ` set (weekly_hours_index master_df)
      = {w. weekday w = 0 \<and> (\<exists>r\<in>set master_df. bin_label (date r) \<le> w)
                          \<and> (\<exists>r\<in>set master_df. w \<le> bin_label (date r))}"
    unfolding lower upper .
  have entries: "\<forall>(w, s)\<in>set (weekly_hours_index master_df).
      s = sum_list (map hours (filter (\<lambda>r. bin_label (date r) = w) master_df))"
  proof (clarify)
    fix w s assume "(w, s) \<in> set (weekly_hours_index master_df)"
    then have "s = sum_list (map snd (filter (\<lambda>r. bin_label (fst r) = w) series))"
      unfolding W by (rule week_bins_entry) (rule weekday_bin_label)
    then show "s = sum_list (map hours (filter (\<lambda>r. bin_label (date r) = w) master_df))"
      unfolding series_def by (simp add: filter_map comp_def)
  qed
  show ?thesis by (rule conjI [OF asc conjI [OF labels entries]])
qed

theorem weekly_series_consecutive_weeks_witness:
  "gap_weeks \<noteq> []
   \<and> sorted_wrt (<) (map fst (weekly_hours_index gap_weeks))
   \<and> map snd (weekly_hours_index gap_weeks) = [1, 0, 0, 2]"
proof -
  have ne: "gap_weeks \<noteq> []" by (simp add: gap_weeks_def)
  have sums: "map snd (weekly_hours_index gap_weeks) = [1, 0, 0, 2]"
    unfolding gap_weeks_def by code_simp
  from weekly_series_consecutive_weeks [OF ne] ne sums show ?thesis by simp
qed

subsection \<open>The reader loop and the dashboard\<close>

lemma read_all_append:
  "read_all rd folder (xs @ ys)
   = (fst (read_all rd folder xs) @ fst (read_all rd folder ys),
      snd (read_all rd folder xs) @ snd (read_all rd folder ys))"
  by (induction xs) (auto simp: Let_def split: sum.splits)

lemma read_all_frames:
  "snd (read_all rd folder file_list) = filter (\<lambda>df. df \<noteq> []) (record_sets rd folder file_list)"
  by (induction file_list) (auto simp: Let_def record_sets_def split: sum.splits)

lemma concat_filter_nonempty: "concat (filter (\<lambda>xs. xs \<noteq> []) xss) = concat xss"
  by (induction xss) auto

lemma filter_nonempty_Nil: "filter (\<lambda>xs. xs \<noteq> []) xss = [] \<longleftrightarrow> concat xss = []"
  by (induction xss) auto

lemma concat_record_sets: "concat (record_sets (read_csv st) folder file_list) = records_of st folder file_list"
  by (induction file_list) (auto simp: record_sets_def records_of_def split: sum.splits)

lemma read_all_records: "concat (snd (read_all (read_csv st) folder file_list)) = records_of st folder file_list"
  by (simp add: read_all_frames concat_filter_nonempty concat_record_sets)

lemma read_all_Nil: "snd (read_all (read_csv st) folder file_list) = [] \<longleftrightarrow> records_of st folder file_list = []"
  by (simp add: read_all_frames filter_nonempty_Nil concat_record_sets)

lemma read_all_valid:
  "\<forall>g\<in>set file_list. \<exists>df. rd (os_path_join folder g) = Inr df \<Longrightarrow> fst (read_all rd folder file_list) = []"
  by (induction file_list) (auto simp: Let_def)

lemma show_dashboard_listing:
  assumes "listdir st (DATA_FOLDER SCRIPT_DIR) = Some names"
  shows "show_dashboard SCRIPT_DIR st d =
     (let file_list = filter (\<lambda>f. endswith f ''_hours.csv'') names;
          master_df = records_of st (DATA_FOLDER SCRIPT_DIR) file_list
      in if file_list = []
         then Inr ([Showinfo ''No Data'' ''No project data files (.csv) found.''], d)
         else if master_df = []
         then Inr (fst (read_all (read_csv st) (DATA_FOLDER SCRIPT_DIR) file_list)
                     @ [Showinfo ''No Data'' ''No valid data found in CSV files.''], d)
         else Inr (fst (read_all (read_csv st) (DATA_FOLDER SCRIPT_DIR) file_list), fill_dashboard master_df))"
  unfolding show_dashboard_def Let_def assms
  by (simp add: read_all_Nil pd_concat_def read_all_records)

text \<open>
  C5. For every listing of storage units in which one unit fails to be read and the
  other units are valid, the reader skips the failing unit (with one warning) and goes on;
  the run ends without an exception, and the dashboard is filled from exactly the records
  of the valid units. (When the valid units hold no record at all, the run ends with the
  "No Data" notice, as for any input without records.)
\<close>

theorem corrupt_unit_is_skipped:
  assumes listing: "listdir st (DATA_FOLDER SCRIPT_DIR) = Some (units1 @ f # units2)"
    and units: "\<forall>g\<in>set (units1 @ f # units2). endswith g ''_hours.csv''"
    and corrupt: "read_csv st (os_path_join (DATA_FOLDER SCRIPT_DIR) f) = Inl e"
    and valid: "\<forall>g\<in>set (units1 @ units2). \<exists>df. read_csv st (os_path_join (DATA_FOLDER SCRIPT_DIR) g) = Inr df"
  shows "show_dashboard SCRIPT_DIR st d =
     (let master_df = records_of st (DATA_FOLDER SCRIPT_DIR) (units1 @ units2);
          warning = Showwarning ''File Read Error''
                      (''Could not read '' @ os_path_join (DATA_FOLDER SCRIPT_DIR) f @ ''.'' @ [CHR 0x0A]
                        @ ''Error: '' @ e)
      in if master_df = []
         then Inr ([warning, Showinfo ''No Data'' ''No valid data found in CSV files.''], d)
         else Inr ([warning], fill_dashboard master_df))"
proof -
  let ?F = "DATA_FOLDER SCRIPT_DIR"
  have fl: "filter (\<lambda>f. endswith f ''_hours.csv'') (units1 @ f # units2) = units1 @ f # units2"
    using units by (simp add: filter_id_conv)
  have v1: "\<forall>g\<in>set units1. \<exists>df. read_csv st (os_path_join ?F g) = Inr df" using valid by simp
  have v2: "\<forall>g\<in>set units2. \<exists>df. read_csv st (os_path_join ?F g) = Inr df" using valid by simp
  have one: "fst (read_all (read_csv st) ?F [f])
      = [Showwarning ''File Read Error'' (''Could not read '' @ os_path_join ?F f @ ''.'' @ [CHR 0x0A] @ ''Error: '' @ e)]"
    by (simp add: corrupt Let_def)
  have msgs: "fst (read_all (read_csv st) ?F (units1 @ [f] @ units2))
      = [Showwarning ''File Read Error'' (''Could not read '' @ os_path_join ?F f @ ''.'' @ [CHR 0x0A] @ ''Error: '' @ e)]"
    unfolding read_all_append fst_conv read_all_valid [OF v1] read_all_valid [OF v2] one by simp
  have recs: "records_of st ?F (units1 @ f # units2) = records_of st ?F (units1 @ units2)"
    by (simp add: records_of_def corrupt)
  show ?thesis
    unfolding show_dashboard_listing [OF listing] Let_def fl recs
    using msgs by simp
qed

theorem corrupt_unit_is_skipped_witness:
  "show_dashboard ''/app'' one_corrupt_unit initial_dashboard =
     Inr ([Showwarning ''File Read Error''
             (''Could not read /app/hour_tracking_files/broken_hours.csv.'' @ [CHR 0x0A]
               @ ''Error: Error tokenizing data'')],
          fill_dashboard scenario)"
proof -
  have F: "DATA_FOLDER ''/app'' = ''/app/hour_tracking_files''"
    by (simp add: DATA_FOLDER_def os_path_join_def)
  have 1: "listdir one_corrupt_unit (DATA_FOLDER ''/app'') = Some ([''alice_hours.csv''] @ ''broken_hours.csv'' # [''bob_hours.csv''])"
    by (simp add: F one_corrupt_unit_def)
  have 2: "\<forall>g\<in>set ([''alice_hours.csv''] @ ''broken_hours.csv'' # [''bob_hours.csv'']). endswith g ''_hours.csv''"
    by (simp add: endswith_def)
  have 3: "read_csv one_corrupt_unit (os_path_join (DATA_FOLDER ''/app'') ''broken_hours.csv'') = Inl ''Error tokenizing data''"
    by (simp add: F one_corrupt_unit_def os_path_join_def)
  have 4: "\<forall>g\<in>set ([''alice_hours.csv''] @ [''bob_hours.csv'']). \<exists>df. read_csv one_corrupt_unit (os_path_join (DATA_FOLDER ''/app'') g) = Inr df"
    by (simp add: F one_corrupt_unit_def os_path_join_def)
  have 5: "records_of one_corrupt_unit (DATA_FOLDER ''/app'') ([''alice_hours.csv''] @ [''bob_hours.csv'']) = scenario"
    by (simp add: F one_corrupt_unit_def os_path_join_def records_of_def)
  have 6: "scenario \<noteq> []" by (simp add: scenario_def)
  show ?thesis
    using corrupt_unit_is_skipped [OF 1 2 3 4, of initial_dashboard] 6
    unfolding Let_def 5 by (simp add: F os_path_join_def)
qed

text \<open>
  C6. The claim: for empty input the pipeline produces an empty report, with a total of
  0, empty mappings and an empty series. On a data folder without files the code shows
  the "No Data" notice and returns before it touches the widgets: a dashboard that showed
  a total of 10 still shows it, and no total of 0 is produced.
\<close>

theorem no_data_shows_no_empty_report:
  "show_dashboard ''/app'' empty_folder (fill_dashboard scenario)
     = Inr ([Showinfo ''No Data'' ''No project data files (.csv) found.''], fill_dashboard scenario)
   \<and> total_hours_label (fill_dashboard scenario) = Some 10"
  by (simp add: show_dashboard_def empty_folder_def DATA_FOLDER_def os_path_join_def
        fill_dashboard_def total_hours_def scenario_def)

text \<open>
  C6, as the code has it. For empty input (the data folder is missing, or holds no
  \<^verbatim>\<open>*_hours.csv\<close> file, or its units hold no record) the run raises no exception: it
  ends with a "No Data" notice and leaves the dashboard as it was.
\<close>

theorem empty_input_is_no_data:
  assumes "case listdir st (DATA_FOLDER SCRIPT_DIR) of
             None \<Rightarrow> True
           | Some names \<Rightarrow>
               records_of st (DATA_FOLDER SCRIPT_DIR) (filter (\<lambda>f. endswith f ''_hours.csv'') names) = []"
  shows "\<exists>msgs text. show_dashboard SCRIPT_DIR st d = Inr (msgs @ [Showinfo ''No Data'' text], d)"
proof (cases "listdir st (DATA_FOLDER SCRIPT_DIR)")
  case None
  then have "show_dashboard SCRIPT_DIR st d =
      Inr ([] @ [Showinfo ''No Data''
             (''The data folder '' @ [CHR 0x27] @ DATA_FOLDER SCRIPT_DIR @ [CHR 0x27] @ '' was not found.'')], d)"
    by (simp add: show_dashboard_def)
  then show ?thesis by blast
next
  case (Some names)
  let ?fl = "filter (\<lambda>f. endswith f ''_hours.csv'') names"
  from assms Some have empty: "records_of st (DATA_FOLDER SCRIPT_DIR) ?fl = []" by simp
  show ?thesis
  proof (cases "?fl = []")
    case True
    then have "show_dashboard SCRIPT_DIR st d =
        Inr ([] @ [Showinfo ''No Data'' ''No project data files (.csv) found.''], d)"
      unfolding show_dashboard_listing [OF Some] Let_def by simp
    then show ?thesis by blast
  next
    case False
    then have "show_dashboard SCRIPT_DIR st d =
        Inr (fst (read_all (read_csv st) (DATA_FOLDER SCRIPT_DIR) ?fl)
               @ [Showinfo ''No Data'' ''No valid data found in CSV files.''], d)"
      unfolding show_dashboard_listing [OF Some] Let_def using empty by simp
    then show ?thesis by blast
  qed
qed

theorem empty_input_is_no_data_witness:
  "(case listdir empty_folder (DATA_FOLDER ''/app'') of
      None \<Rightarrow> True
    | Some names \<Rightarrow>
        records_of empty_folder (DATA_FOLDER ''/app'') (filter (\<lambda>f. endswith f ''_hours.csv'') names) = [])
   \<and> (\<exists>msgs text. show_dashboard ''/app'' empty_folder initial_dashboard
                      = Inr (msgs @ [Showinfo ''No Data'' text], initial_dashboard))"
proof -
  have h: "case listdir empty_folder (DATA_FOLDER ''/app'') of
      None \<Rightarrow> True
    | Some names \<Rightarrow>
        records_of empty_folder (DATA_FOLDER ''/app'') (filter (\<lambda>f. endswith f ''_hours.csv'') names) = []"
    by (simp add: empty_folder_def DATA_FOLDER_def os_path_join_def records_of_def)
  show ?thesis by (rule conjI [OF h empty_input_is_no_data [OF h]])
qed

lemma count_list_concat: "count_list (concat xss) r = sum_list (map (\<lambda>xs. count_list xs r) xss)"
  by (induction xss) auto

text \<open>
  C7. For every sequence of record sets, the merged dataset is their concatenation:
  every record of every record set is in it as often as it occurs in the record sets (no
  deduplication), and its length is the sum of their lengths. The loop keeps the
  non-empty frames; when none is left there is no record to merge and
  \<^verbatim>\<open>pd.concat\<close> is not called.
\<close>

theorem merged_dataset_is_concatenation:
  "(if snd (read_all rd folder file_list) = []
    then concat (record_sets rd folder file_list) = []
    else pd_concat (snd (read_all rd folder file_list)) = Inr (concat (record_sets rd folder file_list)))
   \<and> length (concat (record_sets rd folder file_list))
       = sum_list (map length (record_sets rd folder file_list))
   \<and> count_list (concat (record_sets rd folder file_list)) r
       = sum_list (map (\<lambda>df. count_list df r) (record_sets rd folder file_list))"
  by (simp add: read_all_frames filter_nonempty_Nil pd_concat_def concat_filter_nonempty
        length_concat count_list_concat)

theorem merged_dataset_is_concatenation_witness:
  "pd_concat (snd (read_all (read_csv twin_units) ''/app/hour_tracking_files'' [''ann_hours.csv'', ''ann_copy_hours.csv'']))
     = Inr (take 1 scenario @ take 1 scenario)
   \<and> length (take 1 scenario @ take 1 scenario) = 2
   \<and> count_list (take 1 scenario @ take 1 scenario) (hd scenario) = 2"
proof -
  have rs: "record_sets (read_csv twin_units) ''/app/hour_tracking_files'' [''ann_hours.csv'', ''ann_copy_hours.csv'']
      = [take 1 scenario, take 1 scenario]"
    by (simp add: record_sets_def twin_units_def)
  have ne: "snd (read_all (read_csv twin_units) ''/app/hour_tracking_files'' [''ann_hours.csv'', ''ann_copy_hours.csv'']) \<noteq> []"
    by (simp add: twin_units_def scenario_def Let_def)
  show ?thesis
    using merged_dataset_is_concatenation
      [of "read_csv twin_units" "''/app/hour_tracking_files''" "[''ann_hours.csv'', ''ann_copy_hours.csv'']" "hd scenario"]
      ne
    unfolding rs by (simp add: scenario_def)
qed

subsection \<open>The report does not depend on the order of the units or of the rows\<close>

lemma sum_list_mset_cong:
  "mset xs = mset ys \<Longrightarrow> sum_list (map f xs) = (sum_list (map f ys) :: rat)"
  using sum_list_filter_mset [of xs ys f "\<lambda>x. True"] by simp

lemma total_hours_mset: "mset df1 = mset df2 \<Longrightarrow> total_hours df1 = total_hours df2"
  unfolding total_hours_def by (rule sum_list_mset_cong)

lemma groupby_sum_mset:
  assumes "mset df1 = mset df2"
  shows "groupby_sum col df1 = groupby_sum col df2"
proof -
  have "set df1 = set df2" using assms by (rule mset_eq_setD)
  then have "set (List.map_filter col df1) = set (List.map_filter col df2)"
    by (simp add: set_map_filter_col)
  then have "sort (remdups (List.map_filter col df1)) = sort (remdups (List.map_filter col df2))"
    by (simp add: sorted_list_of_set_sort_remdups [symmetric])
  moreover have "sum_list (map hours (filter (\<lambda>r. col r = Some k) df1))
      = sum_list (map hours (filter (\<lambda>r. col r = Some k) df2))" for k
    using assms by (rule sum_list_filter_mset)
  ultimately show ?thesis unfolding groupby_sum_def by simp
qed

lemma week_bins_mset:
  "mset rows1 = mset rows2 \<Longrightarrow> week_bins first m rows1 = week_bins first m rows2"
proof -
  assume a: "mset rows1 = mset rows2"
  show ?thesis unfolding week_bins_def by (simp add: sum_list_filter_mset [OF a])
qed

lemma resample_mset:
  assumes "mset series1 = mset series2"
  shows "resample_W_MON_left_sum series1 = resample_W_MON_left_sum series2"
proof (cases "series1 = []")
  case True
  with assms have "series2 = []" by simp
  with True show ?thesis by simp
next
  case False
  with assms have ne2: "series2 \<noteq> []" by auto
  have "set series1 = set series2" using assms by (rule mset_eq_setD)
  then show ?thesis
    unfolding resample_week_bins [OF False] resample_week_bins [OF ne2]
    by (simp add: week_bins_mset [OF assms])
qed

lemma fill_dashboard_mset:
  assumes "mset df1 = mset df2"
  shows "fill_dashboard df1 = fill_dashboard df2"
proof -
  have "resample_W_MON_left_sum (map (\<lambda>r. (date r, hours r)) df1)
      = resample_W_MON_left_sum (map (\<lambda>r. (date r, hours r)) df2)"
    by (rule resample_mset) (simp add: assms)
  then have "weekly_hours df1 = weekly_hours df2"
    unfolding weekly_hours_def weekly_hours_index_def by (simp only:)
  then show ?thesis
    unfolding fill_dashboard_def draw_charts_def hours_by_person_def hours_by_subject_def
    by (simp add: total_hours_mset [OF assms] groupby_sum_mset [OF assms])
qed

lemma mset_concat_map:
  "mset xs = mset ys \<Longrightarrow> mset (concat (map h xs)) = mset (concat (map h ys))"
proof -
  assume a: "mset xs = mset ys"
  have "mset (concat (map h zs)) = sum_mset (image_mset (\<lambda>z. mset (h z)) (mset zs))" for zs
    by (induction zs) auto
  with a show ?thesis by simp
qed

lemma records_of_mset:
  "mset fl1 = mset fl2 \<Longrightarrow> read_csv st1 = read_csv st2 \<Longrightarrow>
   mset (records_of st1 folder fl1) = mset (records_of st2 folder fl2)"
proof -
  assume a: "mset fl1 = mset fl2" and b: "read_csv st1 = read_csv st2"
  show ?thesis unfolding records_of_def b by (rule mset_concat_map [OF a])
qed

lemma show_dashboard_total:
  "\<exists>msgs. show_dashboard SCRIPT_DIR st d =
     Inr (msgs, case listdir st (DATA_FOLDER SCRIPT_DIR) of
                  None \<Rightarrow> d
                | Some names \<Rightarrow>
                    (let master_df = records_of st (DATA_FOLDER SCRIPT_DIR)
                                       (filter (\<lambda>f. endswith f ''_hours.csv'') names)
                     in if master_df = [] then d else fill_dashboard master_df))"
proof (cases "listdir st (DATA_FOLDER SCRIPT_DIR)")
  case None
  then show ?thesis by (simp add: show_dashboard_def)
next
  case (Some names)
  have "records_of st (DATA_FOLDER SCRIPT_DIR) [] = []" by (simp add: records_of_def)
  then show ?thesis
    unfolding show_dashboard_listing [OF Some] Some Let_def by simp
qed

text \<open>
  C8. Two runs of the dashboard on the same storage snapshot show the same report: the
  same total, the same groups with the same sums, the same weekly series. The listing may
  even come in another order the second time; and a run on a dashboard that already shows
  the report of the snapshot leaves it as it is.
\<close>

theorem repeated_runs_show_the_same_report:
  assumes same_files: "read_csv st2 = read_csv st1"
    and same_listing: "map_option mset (listdir st2 (DATA_FOLDER SCRIPT_DIR))
                       = map_option mset (listdir st1 (DATA_FOLDER SCRIPT_DIR))"
  shows "\<exists>msgs1 msgs2 msgs3 d'.
           show_dashboard SCRIPT_DIR st1 d = Inr (msgs1, d')
         \<and> show_dashboard SCRIPT_DIR st2 d = Inr (msgs2, d')
         \<and> show_dashboard SCRIPT_DIR st2 d' = Inr (msgs3, d')"
proof -
  let ?F = "DATA_FOLDER SCRIPT_DIR"
  let ?after = "\<lambda>st d. case listdir st ?F of
                  None \<Rightarrow> d
                | Some names \<Rightarrow>
                    (let master_df = records_of st ?F (filter (\<lambda>f. endswith f ''_hours.csv'') names)
                     in if master_df = [] then d else fill_dashboard master_df)"
  have same: "?after st2 x = ?after st1 x" for x
  proof (cases "listdir st1 ?F")
    case None
    with same_listing have "listdir st2 ?F = None" by simp
    with None show ?thesis by simp
  next
    case (Some names1)
    with same_listing obtain names2 where n2: "listdir st2 ?F = Some names2" "mset names2 = mset names1"
      by (cases "listdir st2 ?F") auto
    let ?D1 = "records_of st1 ?F (filter (\<lambda>f. endswith f ''_hours.csv'') names1)"
    let ?D2 = "records_of st2 ?F (filter (\<lambda>f. endswith f ''_hours.csv'') names2)"
    have m: "mset ?D2 = mset ?D1"
      by (rule records_of_mset) (simp_all add: n2(2) same_files)
    have e: "?D2 = [] \<longleftrightarrow> ?D1 = []"
    proof
      assume "?D2 = []"
      with m have "mset ?D1 = {#}" by simp
      then show "?D1 = []" by simp
    next
      assume "?D1 = []"
      with m have "mset ?D2 = {#}" by simp
      then show "?D2 = []" by simp
    qed
    from m have "fill_dashboard ?D2 = fill_dashboard ?D1" by (rule fill_dashboard_mset)
    with e show ?thesis unfolding Some n2(1) Let_def by simp
  qed
  have idem: "?after st1 (?after st1 x) = ?after st1 x" for x
    by (simp add: Let_def split: option.splits)
  from show_dashboard_total [of SCRIPT_DIR st1 d] obtain msgs1
    where 1: "show_dashboard SCRIPT_DIR st1 d = Inr (msgs1, ?after st1 d)" by blast
  from show_dashboard_total [of SCRIPT_DIR st2 d] obtain msgs2
    where 2: "show_dashboard SCRIPT_DIR st2 d = Inr (msgs2, ?after st1 d)" unfolding same by blast
  from show_dashboard_total [of SCRIPT_DIR st2 "?after st1 d"] obtain msgs3
    where 3: "show_dashboard SCRIPT_DIR st2 (?after st1 d) = Inr (msgs3, ?after st1 d)"
    unfolding same idem by blast
  from 1 2 3 show ?thesis by blast
qed

theorem repeated_runs_show_the_same_report_witness:
  "read_csv one_corrupt_unit_relisted = read_csv one_corrupt_unit
   \<and> map_option mset (listdir one_corrupt_unit_relisted (DATA_FOLDER ''/app''))
       = map_option mset (listdir one_corrupt_unit (DATA_FOLDER ''/app''))
   \<and> (\<exists>msgs1 msgs2 msgs3 d'.
           show_dashboard ''/app'' one_corrupt_unit initial_dashboard = Inr (msgs1, d')
         \<and> show_dashboard ''/app'' one_corrupt_unit_relisted initial_dashboard = Inr (msgs2, d')
         \<and> show_dashboard ''/app'' one_corrupt_unit_relisted d' = Inr (msgs3, d'))"
proof -
  have F: "DATA_FOLDER ''/app'' = ''/app/hour_tracking_files''"
    by (simp add: DATA_FOLDER_def os_path_join_def)
  have 1: "read_csv one_corrupt_unit_relisted = read_csv one_corrupt_unit"
    by (simp add: one_corrupt_unit_relisted_def)
  have 2: "map_option mset (listdir one_corrupt_unit_relisted (DATA_FOLDER ''/app''))
       = map_option mset (listdir one_corrupt_unit (DATA_FOLDER ''/app''))"
    by (simp add: F one_corrupt_unit_relisted_def one_corrupt_unit_def add_mset_commute)
  show ?thesis
    by (rule conjI [OF 1 conjI [OF 2 repeated_runs_show_the_same_report [OF 1 2]]])
qed

subsection \<open>The log form\<close>

lemma strip_Alice: "strip '' Alice '' = ''Alice''" by (simp add: strip_def is_space_def)
lemma strip_date: "strip ''06-01-2025'' = ''06-01-2025''" by (simp add: strip_def is_space_def)
lemma strip_hours: "strip ''3.5'' = ''3.5''" by (simp add: strip_def is_space_def)
lemma strip_zero: "strip ''0'' = ''0''" by (simp add: strip_def is_space_def)
lemma strip_nan: "strip ''nan'' = ''nan''" by (simp add: strip_def is_space_def)
lemma strip_Meetings: "strip ''Meetings'' = ''Meetings''" by (simp add: strip_def is_space_def)
lemma strptime_ex: "strptime_dmY ''06-01-2025'' = Some (2025, 1, 6)" by code_simp
lemma float_ex: "py_float ''3.5'' = Some (Finite (7 / 2))" by code_simp
lemma float_zero: "py_float ''0'' = Some (Finite 0)" by code_simp
lemma float_nan: "py_float ''nan'' = Some NaN" by code_simp
lemma fname_ex: "get_employee_filename (\<lambda>s. s) ''/app'' ''Alice'' = ''/app/hour_tracking_files/alice_hours.csv''"
  by code_simp
lemma strftime_ex: "strftime_Ymd (2025, 1, 6) = ''2025-01-06''" by code_simp

lemmas form_examples = strip_Alice strip_date strip_hours strip_zero strip_nan strip_Meetings
  strptime_ex float_ex float_zero float_nan fname_ex strftime_ex

lemma float_gt_not_le: "float_gt_zero h \<Longrightarrow> \<not> float_le_zero h"
  by (cases h) auto

lemma log_hours_written:
  assumes "strip (name_combobox s) \<noteq> []" "strip (date_entry s) \<noteq> []" "strip (hours_entry s) \<noteq> []"
    "subject_combobox s \<noteq> []"
    "strptime_dmY (strip (date_entry s)) = Some date_obj"
    "py_float (strip (hours_entry s)) = Some h" "\<not> float_le_zero h"
    "open_error s (get_employee_filename NFD SCRIPT_DIR (strip (name_combobox s))) = None"
  shows "fst (log_hours NFD SCRIPT_DIR s) = Showinfo_logged h (strip (name_combobox s))"
    and "files (snd (log_hours NFD SCRIPT_DIR s)) =
      (files s)(get_employee_filename NFD SCRIPT_DIR (strip (name_combobox s)) \<mapsto>
         (case files s (get_employee_filename NFD SCRIPT_DIR (strip (name_combobox s))) of
            None \<Rightarrow> [CSV_HEADER] | Some rows \<Rightarrow> rows)
         @ [[Str (strip (name_combobox s)), Str (strftime_Ymd date_obj), Num h, Str (subject_combobox s)]])"
  using assms by (auto simp: log_hours_def Let_def split: option.splits)

lemma log_hours_logged_only_if:
  assumes "fst (log_hours NFD SCRIPT_DIR s) = Showinfo_logged h n"
  shows "n = strip (name_combobox s) \<and> strip (name_combobox s) \<noteq> [] \<and> strip (date_entry s) \<noteq> []
       \<and> strip (hours_entry s) \<noteq> [] \<and> subject_combobox s \<noteq> []
       \<and> (\<exists>date_obj. strptime_dmY (strip (date_entry s)) = Some date_obj)
       \<and> py_float (strip (hours_entry s)) = Some h \<and> \<not> float_le_zero h
       \<and> open_error s (get_employee_filename NFD SCRIPT_DIR (strip (name_combobox s))) = None"
  using assms by (auto simp: log_hours_def Let_def split: option.splits if_splits)

lemma log_hours_not_logged:
  assumes "\<forall>h n. fst (log_hours NFD SCRIPT_DIR s) \<noteq> Showinfo_logged h n"
  shows "snd (log_hours NFD SCRIPT_DIR s) = s"
  using assms by (auto simp: log_hours_def Let_def split: option.splits if_splits)

text \<open>
  C9. The claim: \<^verbatim>\<open>log_hours\<close> appends a row if and only if the four inputs are not empty
  after trimming, the date parses as dd-mm-yyyy and the hours parse as a number greater
  than 0. With such inputs, on a data folder where the file cannot be opened for
  appending, the code reports a "File Error" and writes nothing.
\<close>

theorem valid_entry_is_not_written_when_open_fails:
  "strip (name_combobox read_only_form) = ''Alice''
   \<and> strip (date_entry read_only_form) = ''06-01-2025''
   \<and> strip (hours_entry read_only_form) = ''3.5''
   \<and> strip (subject_combobox read_only_form) = ''Meetings''
   \<and> strptime_dmY ''06-01-2025'' = Some (2025, 1, 6)
   \<and> py_float ''3.5'' = Some (Finite (7 / 2))
   \<and> log_hours (\<lambda>s. s) ''/app'' read_only_form
       = (Showerror ''File Error''
            (''Could not write to file /app/hour_tracking_files/alice_hours.csv.'' @ [CHR 0x0A]
              @ ''[Errno 13] Permission denied''),
          read_only_form)"
  by (simp add: log_hours_def Let_def read_only_form_def filled_form_def form_examples)

text \<open>
  C9, as the code has it. \<^verbatim>\<open>log_hours\<close> appends the row to the employee's file (after the
  header when the file is new) when name, date and hours are not empty after trimming, the
  subject is not empty, the date parses with \<^verbatim>\<open>%d-%m-%Y\<close>, the hours parse as a float
  greater than 0, and the file can be opened for appending. It leaves every file as it is
  when a field is empty, the date does not parse, the hours do not parse or are a float
  not greater than 0 in the sense of \<^verbatim>\<open>hours <= 0\<close>, or the file cannot be opened.
\<close>

theorem log_hours_writes_when_valid_and_writable:
  "(let name = strip (name_combobox s);
        date_str = strip (date_entry s);
        hours_str = strip (hours_entry s);
        subject = subject_combobox s;
        filename = get_employee_filename NFD SCRIPT_DIR name
    in (name \<noteq> [] \<and> date_str \<noteq> [] \<and> hours_str \<noteq> [] \<and> subject \<noteq> []
          \<and> strptime_dmY date_str = Some date_obj
          \<and> py_float hours_str = Some h \<and> float_gt_zero h
          \<and> open_error s filename = None
        \<longrightarrow> files (snd (log_hours NFD SCRIPT_DIR s)) =
              (files s)(filename \<mapsto>
                 (case files s filename of None \<Rightarrow> [CSV_HEADER] | Some rows \<Rightarrow> rows)
                 @ [[Str name, Str (strftime_Ymd date_obj), Num h, Str subject]]))
     \<and> (name = [] \<or> date_str = [] \<or> hours_str = [] \<or> subject = []
          \<or> strptime_dmY date_str = None
          \<or> py_float hours_str = None
          \<or> (\<exists>v. py_float hours_str = Some v \<and> float_le_zero v)
          \<or> open_error s filename \<noteq> None
        \<longrightarrow> files (snd (log_hours NFD SCRIPT_DIR s)) = files s))"
proof -
  have written: "files (snd (log_hours NFD SCRIPT_DIR s)) =
      (files s)(get_employee_filename NFD SCRIPT_DIR (strip (name_combobox s)) \<mapsto>
         (case files s (get_employee_filename NFD SCRIPT_DIR (strip (name_combobox s))) of
            None \<Rightarrow> [CSV_HEADER] | Some rows \<Rightarrow> rows)
         @ [[Str (strip (name_combobox s)), Str (strftime_Ymd date_obj), Num h, Str (subject_combobox s)]])"
    if "strip (name_combobox s) \<noteq> []" "strip (date_entry s) \<noteq> []" "strip (hours_entry s) \<noteq> []"
      "subject_combobox s \<noteq> []"
      "strptime_dmY (strip (date_entry s)) = Some date_obj"
      "py_float (strip (hours_entry s)) = Some h" "float_gt_zero h"
      "open_error s (get_employee_filename NFD SCRIPT_DIR (strip (name_combobox s))) = None"
    using that by (intro log_hours_written(2) float_gt_not_le)
  have unchanged: "files (snd (log_hours NFD SCRIPT_DIR s)) = files s"
    if "strip (name_combobox s) = [] \<or> strip (date_entry s) = [] \<or> strip (hours_entry s) = []
        \<or> subject_combobox s = []
        \<or> strptime_dmY (strip (date_entry s)) = None
        \<or> py_float (strip (hours_entry s)) = None
        \<or> (\<exists>v. py_float (strip (hours_entry s)) = Some v \<and> float_le_zero v)
        \<or> open_error s (get_employee_filename NFD SCRIPT_DIR (strip (name_combobox s))) \<noteq> None"
  proof -
    have "\<forall>h n. fst (log_hours NFD SCRIPT_DIR s) \<noteq> Showinfo_logged h n"
    proof (intro allI notI)
      fix h' n assume "fst (log_hours NFD SCRIPT_DIR s) = Showinfo_logged h' n"
      from log_hours_logged_only_if [OF this] that show False by auto
    qed
    then show ?thesis by (simp add: log_hours_not_logged)
  qed
  show ?thesis unfolding Let_def using written unchanged by blast
qed

theorem log_hours_writes_when_valid_and_writable_witness:
  "files (snd (log_hours (\<lambda>s. s) ''/app'' filled_form))
     = (files filled_form)(''/app/hour_tracking_files/alice_hours.csv'' \<mapsto>
          [CSV_HEADER, [Str ''Alice'', Str ''2025-01-06'', Num (Finite (7 / 2)), Str ''Meetings'']])
   \<and> files (snd (log_hours (\<lambda>s. s) ''/app'' zero_hours_form)) = files zero_hours_form"
proof -
  have 1: "files (snd (log_hours (\<lambda>s. s) ''/app'' filled_form))
     = (files filled_form)(''/app/hour_tracking_files/alice_hours.csv'' \<mapsto>
          [CSV_HEADER, [Str ''Alice'', Str ''2025-01-06'', Num (Finite (7 / 2)), Str ''Meetings'']])"
    using log_hours_writes_when_valid_and_writable
      [of filled_form "\<lambda>s. s" "''/app''" "(2025, 1, 6)" "Finite (7 / 2)"]
    by (simp add: Let_def filled_form_def form_examples)
  have 2: "files (snd (log_hours (\<lambda>s. s) ''/app'' zero_hours_form)) = files zero_hours_form"
    using log_hours_writes_when_valid_and_writable
      [of zero_hours_form "\<lambda>s. s" "''/app''" "(2025, 1, 6)" "Finite 0"]
    by (simp add: Let_def zero_hours_form_def filled_form_def form_examples)
  from 1 2 show ?thesis by (rule conjI)
qed

text \<open>
  The check \<^verbatim>\<open>hours <= 0\<close> lets the float \<^verbatim>\<open>nan\<close> pass, which neither of the two cases
  above covers: such a row is written.
\<close>

lemma nan_hours_are_logged:
  "files (snd (log_hours (\<lambda>s. s) ''/app'' nan_hours_form)) ''/app/hour_tracking_files/alice_hours.csv''
     = Some [CSV_HEADER, [Str ''Alice'', Str ''2025-01-06'', Num NaN, Str ''Meetings'']]"
  by (simp add: log_hours_def Let_def nan_hours_form_def filled_form_def form_examples)

subsection \<open>Dates as text\<close>

lemma below_ten: "(j::nat) < 10 \<Longrightarrow> j = 0 \<or> j = 1 \<or> j = 2 \<or> j = 3 \<or> j = 4 \<or> j = 5 \<or> j = 6 \<or> j = 7 \<or> j = 8 \<or> j = 9"
  by presburger

lemma digit_char_props:
  "is_digit (digit_char n) \<and> digit_value (digit_char n) = n mod 10 \<and> digit_char n \<noteq> CHR ''-''"
proof -
  define j where "j = nat (n mod 10)"
  have j: "j < 10" "n mod 10 = int j" unfolding j_def by simp_all
  have c: "digit_char n = ''0123456789'' ! j" unfolding digit_char_def j_def ..
  from below_ten [OF j(1)] show ?thesis
    unfolding c j(2) by (elim disjE) (simp_all add: is_digit_def digit_value_def)
qed

lemma is_digit_value: "is_digit c \<Longrightarrow> 0 \<le> digit_value c \<and> digit_value c \<le> 9"
  unfolding is_digit_def by (auto simp: digit_value_def)

lemma two_digits: "0 \<le> m \<Longrightarrow> m \<le> 99 \<Longrightarrow> 10 * (m div 10 mod 10) + m mod 10 = (m::int)"
proof -
  assume a: "0 \<le> m" "m \<le> 99"
  then have "0 \<le> m div 10" "m div 10 < 10" by simp_all
  then have "m div 10 mod 10 = m div 10" by simp
  then show ?thesis by simp
qed

lemma four_digits: "0 \<le> y \<Longrightarrow> y \<le> 9999 \<Longrightarrow>
  10 * (10 * (10 * (y div 1000 mod 10) + y div 100 mod 10) + y div 10 mod 10) + y mod 10 = (y::int)"
proof -
  assume a: "0 \<le> y" "y \<le> 9999"
  then have "0 \<le> y div 1000" "y div 1000 < 10" by simp_all
  then have d: "y div 1000 mod 10 = y div 1000" by simp
  have "y div 100 div 10 = y div (100 * 10)" by (rule zdiv_zmult2_eq [symmetric]) simp
  then have c: "y div 100 = 10 * (y div 1000) + y div 100 mod 10"
    using mult_div_mod_eq [of 10 "y div 100"] by simp
  have "y div 10 div 10 = y div (10 * 10)" by (rule zdiv_zmult2_eq [symmetric]) simp
  then have b: "y div 10 = 10 * (y div 100) + y div 10 mod 10"
    using mult_div_mod_eq [of 10 "y div 10"] by simp
  have "y = 10 * (y div 10) + y mod 10" by simp
  then show ?thesis using b c d by simp
qed

end
